theory Spec2Isabelle
  imports Complex_Main "HOL-Library.Sublist" "HOL-Library.Word"
begin

text \<open>
  The action analysis and the documentation pipeline of the task recorder backend:
  \<open>services/processor.ts\<close> (metrics and pre-chunking), \<open>services/llm.ts\<close> (the
  generation client with its fallback chain), the three response parsers under
  \<open>prompts/\<close>, and \<open>services/generator.ts\<close> (the orchestrator). What these take from
  the platform or from a provider (the URL parser, \<open>JSON.parse\<close>, \<open>JSON.stringify\<close>, the
  conversion of a value to an index, the provider call) is a parameter of the functions
  below.
\<close>

section \<open>Event model (types.ts)\<close>

text \<open>
  JavaScript numbers that hold indices and counts are modelled as \<open>nat\<close>, timestamps and
  durations in milliseconds as \<open>int\<close>. An optional field is an \<open>option\<close>. The strings
  of an action, the names of models and the messages of errors are only copied, compared
  and joined; they are lists of characters.
\<close>

datatype ActionType = Click | Input | Navigation | Copy | Scroll

record ActionTarget =
  selector :: string
  target_text :: string
  role :: "string option"

record ActionMetadata =
  pageTitle :: string
  h1 :: "string option"
  idleTimeBefore :: "int option"

record Action =
  atype :: ActionType
  timestamp :: int
  url :: string
  target :: ActionTarget
  metadata :: ActionMetadata

record PauseInfo =
  pause_index :: nat
  durationMs :: int

record BackForthPattern =
  bf_indices :: "nat list"

record RepeatedActionInfo =
  ra_type :: ActionType
  ra_count :: nat
  ra_indices :: "nat list"

record ExtractionAction =
  ex_index :: nat
  ex_context :: string

record TaskMetrics =
  totalActions :: nat
  totalDurationMs :: int
  longPauses :: "PauseInfo list"
  backForthPatterns :: "BackForthPattern list"
  repeatedActions :: "RepeatedActionInfo list"
  extractionActions :: "ExtractionAction list"
  urlChanges :: nat
  uniqueDomains :: "string list"

section \<open>Metrics engine (processor.ts)\<close>

definition LONG_PAUSE_THRESHOLD_MS :: int where
  "LONG_PAUSE_THRESHOLD_MS = 10000"

definition CHUNK_PAUSE_THRESHOLD_MS :: int where
  "CHUNK_PAUSE_THRESHOLD_MS = 15000"

definition REPEATED_ACTION_THRESHOLD :: nat where
  "REPEATED_ACTION_THRESHOLD = 3"

text \<open>
  A \<open>for (let i = a; i < b; i++)\<close> loop whose body only reads \<open>i\<close> and updates the loop
  state is a left fold of the body over \<open>[a..<b]\<close>.
\<close>

subsection \<open>detectLongPauses\<close>

text \<open>\<open>idleTime && idleTime >= LONG_PAUSE_THRESHOLD_MS\<close>: absent and 0 are falsy.\<close>

definition pause_body :: "Action list \<Rightarrow> PauseInfo list \<Rightarrow> nat \<Rightarrow> PauseInfo list" where
  "pause_body actions pauses i =
     (case idleTimeBefore (metadata (actions ! i)) of
        None \<Rightarrow> pauses
      | Some idleTime \<Rightarrow>
          if idleTime \<noteq> 0 \<and> idleTime \<ge> LONG_PAUSE_THRESHOLD_MS
          then pauses @ [\<lparr>pause_index = i, durationMs = idleTime\<rparr>]
          else pauses)"

definition detectLongPauses :: "Action list \<Rightarrow> PauseInfo list" where
  "detectLongPauses actions = foldl (pause_body actions) [] [0..<length actions]"

subsection \<open>detectBackForthPatterns\<close>

record UrlVisit =
  v_url :: string
  v_index :: nat

text \<open>
  \<open>urlHistory.find((h, idx) => h.url === currentUrl && idx < urlHistory.length - 1)\<close>
  returns the first entry, in array order, that satisfies the test. The model returns its
  position, which is what the later \<open>findIndex(h => h === previousOccurrence)\<close> recovers
  (the entries are distinct objects).
\<close>

definition find_previous :: "UrlVisit list \<Rightarrow> string \<Rightarrow> nat option" where
  "find_previous urlHistory currentUrl =
     List.find (\<lambda>idx. v_url (urlHistory ! idx) = currentUrl \<and> Suc idx < length urlHistory)
       [0..<length urlHistory]"

record bf_state =
  patterns :: "BackForthPattern list"
  urlHistory :: "UrlVisit list"

definition bf_body :: "Action list \<Rightarrow> bf_state \<Rightarrow> nat \<Rightarrow> bf_state" where
  "bf_body actions st i =
     (let currentUrl = url (actions ! i);
          hist = urlHistory st;
          pats =
            (case find_previous hist currentUrl of
               None \<Rightarrow> patterns st
             | Some k \<Rightarrow>
                 if length hist > 0 then
                   (let intermediateIndices = map v_index (drop (k + 1) hist)
                    in if length intermediateIndices > 0
                       then patterns st @
                              [\<lparr>bf_indices = [v_index (hist ! k)] @ intermediateIndices @ [i]\<rparr>]
                       else patterns st)
                 else patterns st);
          pushed = hist @ [\<lparr>v_url = currentUrl, v_index = i\<rparr>]
      in \<lparr>patterns = pats,
          urlHistory = (if length pushed > 10 then tl pushed else pushed)\<rparr>)"

definition detectBackForthPatterns :: "Action list \<Rightarrow> BackForthPattern list" where
  "detectBackForthPatterns actions =
     patterns (foldl (bf_body actions) \<lparr>patterns = [], urlHistory = []\<rparr> [0..<length actions])"

subsection \<open>detectRepeatedActions\<close>

record rep_state =
  rep_result :: "RepeatedActionInfo list"
  currentType :: "ActionType option"
  currentIndices :: "nat list"

text \<open>
  \<open>if (currentType && currentIndices.length >= REPEATED_ACTION_THRESHOLD)\<close>: every
  \<open>ActionType\<close> is a non-empty string, so \<open>currentType\<close> is falsy only when it is
  \<open>null\<close>.
\<close>

definition save_sequence :: "rep_state \<Rightarrow> RepeatedActionInfo list" where
  "save_sequence st =
     (case currentType st of
        None \<Rightarrow> rep_result st
      | Some t \<Rightarrow>
          if length (currentIndices st) \<ge> REPEATED_ACTION_THRESHOLD
          then rep_result st @
                 [\<lparr>ra_type = t, ra_count = length (currentIndices st),
                   ra_indices = currentIndices st\<rparr>]
          else rep_result st)"

definition rep_body :: "Action list \<Rightarrow> rep_state \<Rightarrow> nat \<Rightarrow> rep_state" where
  "rep_body actions st i =
     (let action = actions ! i in
      if Some (atype action) = currentType st
      then st\<lparr>currentIndices := currentIndices st @ [i]\<rparr>
      else \<lparr>rep_result = save_sequence st,
            currentType = Some (atype action),
            currentIndices = [i]\<rparr>)"

definition detectRepeatedActions :: "Action list \<Rightarrow> RepeatedActionInfo list" where
  "detectRepeatedActions actions =
     save_sequence
       (foldl (rep_body actions)
          \<lparr>rep_result = [], currentType = None, currentIndices = []\<rparr>
          [0..<length actions])"

subsection \<open>detectExtractionActions\<close>

text \<open>
  \<open>actions.map((action, index) => ({action, index})).filter(...).map(...)\<close>; the template
  literal is \<open>`${action.metadata.pageTitle} - ${action.target.text}`\<close>.
\<close>

definition detectExtractionActions :: "Action list \<Rightarrow> ExtractionAction list" where
  "detectExtractionActions actions =
     map (\<lambda>(action, index).
            \<lparr>ex_index = index,
             ex_context = pageTitle (metadata action) @ '' - '' @ target_text (target action)\<rparr>)
       (filter (\<lambda>(action, index). atype action = Copy)
          (zip actions [0..<length actions]))"

subsection \<open>analyzeUrls\<close>

text \<open>
  \<open>new URL(s).hostname\<close> is the platform's URL parser. It is a parameter \<open>hostname\<close> of
  the model: \<open>None\<close> when the constructor throws, otherwise the host name.
  \<open>domains\<close> is a JavaScript \<open>Set\<close>, which keeps insertion order and ignores a value
  it already holds.
\<close>

record url_state =
  us_urlChanges :: nat
  lastUrl :: string
  domains :: "string list"

definition set_add :: "string list \<Rightarrow> string \<Rightarrow> string list" where
  "set_add s x = (if x \<in> set s then s else s @ [x])"

definition url_body :: "(string \<Rightarrow> string option) \<Rightarrow> url_state \<Rightarrow> Action \<Rightarrow> url_state" where
  "url_body hostname st action =
     (if url action \<noteq> lastUrl st then
        (case hostname (url action) of
           Some h \<Rightarrow> \<lparr>us_urlChanges = us_urlChanges st + 1, lastUrl = url action,
                      domains = set_add (domains st) h\<rparr>
         | None \<Rightarrow> \<lparr>us_urlChanges = us_urlChanges st + 1, lastUrl = url action,
                    domains = domains st\<rparr>)
      else st)"

definition analyzeUrls :: "(string \<Rightarrow> string option) \<Rightarrow> Action list \<Rightarrow> nat \<times> string list" where
  "analyzeUrls hostname actions =
     (let st = foldl (url_body hostname) \<lparr>us_urlChanges = 0, lastUrl = '''', domains = []\<rparr> actions
      in (us_urlChanges st, domains st))"

subsection \<open>calculateMetrics\<close>

definition calculateMetrics :: "(string \<Rightarrow> string option) \<Rightarrow> Action list \<Rightarrow> TaskMetrics" where
  "calculateMetrics hostname actions =
     (if length actions = 0 then
        \<lparr>totalActions = 0, totalDurationMs = 0, longPauses = [], backForthPatterns = [],
         repeatedActions = [], extractionActions = [], urlChanges = 0, uniqueDomains = []\<rparr>
      else
        (let (n_changes, doms) = analyzeUrls hostname actions;
             firstAction = actions ! 0;
             lastAction = actions ! (length actions - 1)
         in \<lparr>totalActions = length actions,
             totalDurationMs = timestamp lastAction - timestamp firstAction,
             longPauses = detectLongPauses actions,
             backForthPatterns = detectBackForthPatterns actions,
             repeatedActions = detectRepeatedActions actions,
             extractionActions = detectExtractionActions actions,
             urlChanges = n_changes,
             uniqueDomains = doms\<rparr>))"

section \<open>Pre-segmenter (processor.ts)\<close>

datatype Boundary = Url_change | Long_pause | Mode_change | Start

record PreChunk =
  startIndex :: nat
  endIndex :: nat
  pc_actions :: "Action list"
  boundary :: Boundary

datatype ActionMode = NavigationMode | InteractionMode | ExtractionMode

fun getActionMode :: "ActionType \<Rightarrow> ActionMode" where
  "getActionMode Navigation = NavigationMode"
| "getActionMode Scroll = NavigationMode"
| "getActionMode Copy = ExtractionMode"
| "getActionMode _ = InteractionMode"

text \<open>\<open>xs.slice(a, b)\<close> for indices \<open>0 \<le> a\<close>, \<open>0 \<le> b\<close>; both ends are clamped to the length.\<close>

definition slice :: "'a list \<Rightarrow> nat \<Rightarrow> nat \<Rightarrow> 'a list" where
  "slice xs a b = take (b - a) (drop a xs)"

record pc_state =
  pc_chunks :: "PreChunk list"
  currentChunkStart :: nat
  pc_lastUrl :: string
  lastMode :: ActionMode

definition createChunk :: "Action list \<Rightarrow> pc_state \<Rightarrow> nat \<Rightarrow> Boundary \<Rightarrow> pc_state" where
  "createChunk actions st endIdx b =
     (if endIdx \<ge> currentChunkStart st then
        st\<lparr>pc_chunks := pc_chunks st @
              [\<lparr>startIndex = currentChunkStart st, endIndex = endIdx,
                pc_actions = slice actions (currentChunkStart st) (endIdx + 1),
                boundary = b\<rparr>],
           currentChunkStart := endIdx + 1\<rparr>
      else st)"

text \<open>
  The body of the loop up to \<open>if (shouldSplit)\<close>: \<open>None\<close> is \<open>shouldSplit = false\<close>,
  \<open>Some b\<close> is \<open>shouldSplit = true\<close> with \<open>boundary = b\<close>. \<open>idleTimeBefore || 0\<close> reads
  an absent value as 0. The \<open>try\<close> block throws when either \<open>new URL(...)\<close> does, and
  the \<open>catch\<close> block then splits.
\<close>

definition split_decision ::
  "(string \<Rightarrow> string option) \<Rightarrow> string \<Rightarrow> ActionMode \<Rightarrow> Action \<Rightarrow> Boundary option" where
  "split_decision hostname last_url last_mode action =
     (let idleTime = (case idleTimeBefore (metadata action) of None \<Rightarrow> 0 | Some t \<Rightarrow> t);
          currentMode = getActionMode (atype action)
      in if idleTime \<ge> CHUNK_PAUSE_THRESHOLD_MS then Some Long_pause
         else if url action \<noteq> last_url then
           (case hostname last_url of
              None \<Rightarrow> Some Url_change
            | Some lastDomain \<Rightarrow>
                (case hostname (url action) of
                   None \<Rightarrow> Some Url_change
                 | Some currentDomain \<Rightarrow>
                     if lastDomain \<noteq> currentDomain then Some Url_change else None))
         else if currentMode \<noteq> last_mode then Some Mode_change
         else None)"

definition pc_body ::
  "(string \<Rightarrow> string option) \<Rightarrow> Action list \<Rightarrow> pc_state \<Rightarrow> nat \<Rightarrow> pc_state" where
  "pc_body hostname actions st i =
     (let action = actions ! i;
          st' = (case split_decision hostname (pc_lastUrl st) (lastMode st) action of
                   Some b \<Rightarrow> createChunk actions st (i - 1) b
                 | None \<Rightarrow> st)
      in st'\<lparr>pc_lastUrl := url action, lastMode := getActionMode (atype action)\<rparr>)"

definition preChunkActions :: "(string \<Rightarrow> string option) \<Rightarrow> Action list \<Rightarrow> PreChunk list" where
  "preChunkActions hostname actions =
     (if length actions = 0 then []
      else
        (let st = foldl (pc_body hostname actions)
                    \<lparr>pc_chunks = [], currentChunkStart = 0, pc_lastUrl = url (actions ! 0),
                     lastMode = getActionMode (atype (actions ! 0))\<rparr>
                    [1..<length actions];
             st' = (if currentChunkStart st < length actions
                    then createChunk actions st (length actions - 1) Start
                    else st)
         in pc_chunks st'))"

section \<open>Texts of a provider\<close>

text \<open>
  A JavaScript string is a sequence of UTF-16 code units. The text that a provider returns
  is inspected unit by unit (\<open>trim\<close>, \<open>[\s\S]\<close>, literal text in regular expressions), so
  such a text, and everything cut out of it, is a list of 16-bit words. \<open>lit\<close> gives the
  code units of an ASCII literal, and \<open>LF\<close> is the line feed \<open>\n\<close>.
\<close>

type_synonym code_unit = "16 word"

type_synonym js_string = "code_unit list"

definition lit :: "string \<Rightarrow> js_string" where
  "lit s = map (\<lambda>c. of_nat (of_char c)) s"

abbreviation LF :: js_string where
  "LF \<equiv> [0x0A]"

section \<open>Generation client (llm.ts)\<close>

datatype LLMProvider = Claude | Openai

fun provider_name :: "LLMProvider \<Rightarrow> string" where
  "provider_name Claude = ''claude''"
| "provider_name Openai = ''openai''"

definition DEFAULT_MAX_TOKENS :: nat where
  "DEFAULT_MAX_TOKENS = 4096"

text \<open>
  \<open>getConfig()\<close> reads the process environment; its result is the parameter \<open>config\<close>.
  \<open>cfg_maxTokens\<close> is \<open>None\<close> when \<open>parseInt\<close> gave \<open>NaN\<close>.
\<close>

record LLMConfig =
  provider :: LLMProvider
  models :: "string list"
  cfg_maxTokens :: "nat option"

record CompletionOptions =
  systemPrompt :: "string option"
  maxTokens :: "nat option"
  temperature :: "rat option"

text \<open>The options \<open>{ ...options, maxTokens, temperature }\<close> handed to the provider call.\<close>

record CallOptions =
  call_systemPrompt :: "string option"
  call_maxTokens :: nat
  call_temperature :: rat

text \<open>\<open>a || b\<close> on numbers: \<open>undefined\<close>, \<open>NaN\<close> and 0 are falsy.\<close>

definition num_or :: "nat option \<Rightarrow> nat \<Rightarrow> nat" where
  "num_or a b = (case a of None \<Rightarrow> b | Some n \<Rightarrow> if n = 0 then b else n)"

text \<open>\<open>xs.join(sep)\<close>\<close>

fun join :: "string \<Rightarrow> string list \<Rightarrow> string" where
  "join sep [] = []"
| "join sep [x] = x"
| "join sep (x # y # ys) = x @ sep @ join sep (y # ys)"

abbreviation NL :: string where
  "NL \<equiv> [CHR 0x0A]"

text \<open>
  \<open>completeWithClaude\<close> and \<open>completeWithOpenAI\<close> call the provider's SDK. They are the
  parameter \<open>call\<close>: for a provider, a prompt, the options and a model it gives \<open>Inr\<close> the
  text returned or \<open>Inl\<close> the message of the error thrown. Within one run the outcome of
  a call is taken to depend on these four only.

  The loop of \<open>complete\<close> over \<open>config.models\<close>. \<open>tried\<close> is the sequence of models
  announced by the \<open>[LLM] Trying ...\<close> log lines, one per attempt. The loop ends with
  \<open>Inr\<close> the result returned, or with \<open>Inl\<close> the \<open>errors\<close> array when the list is
  exhausted.
\<close>

fun complete_loop ::
  "(string \<Rightarrow> string + js_string) \<Rightarrow> string list \<Rightarrow> (string \<times> string) list \<Rightarrow> string list
     \<Rightarrow> string list \<times> ((string \<times> string) list + js_string)" where
  "complete_loop attempt [] errors tried = (tried, Inl errors)"
| "complete_loop attempt (model # rest) errors tried =
     (case attempt model of
        Inr result \<Rightarrow> (tried @ [model], Inr result)
      | Inl errorMessage \<Rightarrow>
          complete_loop attempt rest (errors @ [(model, errorMessage)]) (tried @ [model]))"

definition all_failed_message :: "LLMProvider \<Rightarrow> (string \<times> string) list \<Rightarrow> string" where
  "all_failed_message p errors =
     ''All '' @ provider_name p @ '' models failed:'' @ NL @ ''  '' @
     join (NL @ ''  '') (map (\<lambda>(model, error). model @ '': '' @ error) errors)"

text \<open>
  The first lines of \<open>complete\<close>: \<open>options.maxTokens || config.maxTokens ||
  DEFAULT_MAX_TOKENS\<close> and \<open>options.temperature ?? 0.3\<close>.
\<close>

definition call_options :: "LLMConfig \<Rightarrow> CompletionOptions \<Rightarrow> CallOptions" where
  "call_options config options =
     \<lparr>call_systemPrompt = systemPrompt options,
      call_maxTokens =
        num_or (maxTokens options) (num_or (cfg_maxTokens config) DEFAULT_MAX_TOKENS),
      call_temperature = (case temperature options of None \<Rightarrow> 3 / 10 | Some t \<Rightarrow> t)\<rparr>"

text \<open>
  \<open>complete\<close> returns the models tried, in order, and \<open>Inr\<close> the text returned or
  \<open>Inl\<close> the message of the \<open>Error\<close> thrown.
\<close>

definition complete ::
  "LLMConfig \<Rightarrow> (LLMProvider \<Rightarrow> string \<Rightarrow> CallOptions \<Rightarrow> string \<Rightarrow> string + js_string)
     \<Rightarrow> string \<Rightarrow> CompletionOptions \<Rightarrow> string list \<times> (string + js_string)" where
  "complete config call prompt options =
     (let (tried, r) =
            complete_loop (call (provider config) prompt (call_options config options))
              (models config) [] []
      in case r of
           Inr result \<Rightarrow> (tried, Inr result)
         | Inl errors \<Rightarrow> (tried, Inl (all_failed_message (provider config) errors)))"

section \<open>Values read from a reply\<close>

text \<open>
  The values that \<open>JSON.parse\<close> returns. A number is a double, or an infinity for a literal
  out of range; a finite double is given as the rational it stands for, and \<open>-0\<close> as 0,
  which nothing below tells apart. An object is the list of its properties, each name once.
  The source assigns a parsed value to a variable of a declared type without checking it,
  so every value read from a reply is one of these, or \<open>undefined\<close>, which is \<open>None\<close>.
\<close>

datatype js_number = Num rat | PlusInfinity | MinusInfinity

datatype json =
    JNull
  | JBool bool
  | JNumber js_number
  | JString js_string
  | JArray "json list"
  | JObject "(js_string \<times> json) list"

type_synonym js_value = "json option"

text \<open>
  What a run throws: an \<open>Error\<close> with its message, or the \<open>TypeError\<close> of the language,
  whose message depends on the engine.
\<close>

datatype thrown = Error string | TypeError

definition and_then :: "thrown + 'a \<Rightarrow> ('a \<Rightarrow> thrown + 'b) \<Rightarrow> thrown + 'b" where
  "and_then r f = (case r of Inl e \<Rightarrow> Inl e | Inr v \<Rightarrow> f v)"

text \<open>
  \<open>v.name\<close> for a parsed value \<open>v\<close>: reading a property of \<open>null\<close> throws a \<open>TypeError\<close>.
  The names that the generator reads are \<open>phase\<close>, \<open>startIndex\<close>, \<open>endIndex\<close>,
  \<open>patterns\<close>, \<open>inferredIntent\<close>, \<open>decision_criteria\<close>, \<open>success_signals\<close>,
  \<open>failure_signals\<close>, \<open>critical_fields\<close>, \<open>corner_cases\<close>, \<open>expert_shortcuts\<close>,
  \<open>situation\<close>, \<open>criterion\<close>, \<open>source_pattern\<close>, \<open>confidence\<close>, \<open>resolution\<close> and
  \<open>source_evidence\<close>. None of them is a property of an array, of a string, a number or a
  boolean, or of \<open>Object.prototype\<close>: on such a value, and on an object without the
  property, the result is \<open>undefined\<close>.
\<close>

fun read_prop :: "json \<Rightarrow> js_string \<Rightarrow> thrown + js_value" where
  "read_prop JNull name = Inl TypeError"
| "read_prop (JObject props) name = Inr (map_of props name)"
| "read_prop (JBool b) name = Inr None"
| "read_prop (JNumber n) name = Inr None"
| "read_prop (JString s) name = Inr None"
| "read_prop (JArray xs) name = Inr None"

text \<open>
  \<open>xs.map(f)\<close> on an array, for a callback that may throw: the elements are handled in
  order, and the first throw ends the call.
\<close>

fun map_throwing :: "('a \<Rightarrow> thrown + 'b) \<Rightarrow> 'a list \<Rightarrow> thrown + 'b list" where
  "map_throwing f [] = Inr []"
| "map_throwing f (x # xs) =
     and_then (f x) (\<lambda>y. and_then (map_throwing f xs) (\<lambda>ys. Inr (y # ys)))"

text \<open>
  \<open>v.map(f)\<close> for a value \<open>v\<close> read from a reply. Only an array has a function as its
  property \<open>map\<close>: \<open>undefined\<close> and \<open>null\<close> have no properties, a string, a number and a
  boolean have no \<open>map\<close>, and an object has at most a parsed value there, which is no
  function. In all these cases the call throws a \<open>TypeError\<close>.
\<close>

definition array_map :: "(json \<Rightarrow> thrown + 'b) \<Rightarrow> js_value \<Rightarrow> thrown + 'b list" where
  "array_map f v = (case v of Some (JArray xs) \<Rightarrow> map_throwing f xs | _ \<Rightarrow> Inl TypeError)"

section \<open>Stage contracts (prompts)\<close>

subsection \<open>String matching\<close>

text \<open>
  The parsers use \<open>String.prototype.match\<close> with regular expressions built from literal
  text and the lazy group \<open>([\s\S]*?)\<close>, which matches any code units and as few as
  possible. Such a match starts at the first occurrence of the leading literal, and the
  group ends at the first place where the rest of the expression matches.

  \<open>after_first pat s\<close>: the text that follows the first occurrence of \<open>pat\<close> in \<open>s\<close>.
  \<open>up_to_first pat s\<close>: the text that precedes the first occurrence of \<open>pat\<close> in \<open>s\<close>.
\<close>

fun after_first :: "js_string \<Rightarrow> js_string \<Rightarrow> js_string option" where
  "after_first pat [] = (if pat = [] then Some [] else None)"
| "after_first pat (c # cs) =
     (if prefix pat (c # cs) then Some (drop (length pat) (c # cs)) else after_first pat cs)"

fun up_to_first :: "js_string \<Rightarrow> js_string \<Rightarrow> js_string option" where
  "up_to_first pat [] = (if pat = [] then Some [] else None)"
| "up_to_first pat (c # cs) =
     (if prefix pat (c # cs) then Some [] else map_option ((#) c) (up_to_first pat cs))"

text \<open>
  Group 1 of \<open>/OPN([\s\S]*?)CLS/\<close>. When no \<open>CLS\<close> follows the first \<open>OPN\<close>, none
  follows a later \<open>OPN\<close> either, and there is no match.
\<close>

definition block :: "js_string \<Rightarrow> js_string \<Rightarrow> js_string \<Rightarrow> js_string option" where
  "block opn cls s =
     (case after_first opn s of None \<Rightarrow> None | Some rest \<Rightarrow> up_to_first cls rest)"

text \<open>
  Group 1 of \<open>/([\s\S]*?)(?=A|B|$)/\<close> applied at the start of a text: the shortest prefix
  that is followed by one of the \<open>stops\<close> or by the end of the text.
\<close>

fun lazy_until :: "js_string list \<Rightarrow> js_string \<Rightarrow> js_string" where
  "lazy_until stops [] = []"
| "lazy_until stops (c # cs) =
     (if list_ex (\<lambda>p. prefix p (c # cs)) stops then [] else c # lazy_until stops cs)"

text \<open>
  \<open>String.prototype.trim\<close> removes white space and line terminators at both ends: tab,
  line feed, vertical tab, form feed, carriage return, space, no-break space, the line and
  paragraph separators, the byte order mark, and the other space separators of Unicode
  (U+1680, U+2000 to U+200A, U+202F, U+205F, U+3000). Each is one code unit.
\<close>

definition is_space :: "code_unit \<Rightarrow> bool" where
  "is_space c \<longleftrightarrow>
     c \<in> set [0x0009, 0x000A, 0x000B, 0x000C, 0x000D, 0x0020, 0x00A0, 0x1680,
              0x2000, 0x2001, 0x2002, 0x2003, 0x2004, 0x2005, 0x2006, 0x2007,
              0x2008, 0x2009, 0x200A, 0x2028, 0x2029, 0x202F, 0x205F, 0x3000, 0xFEFF]"

definition trim :: "js_string \<Rightarrow> js_string" where
  "trim s = rev (dropWhile is_space (rev (dropWhile is_space s)))"

subsection \<open>parseChunkerResponse (chunker.ts)\<close>

text \<open>
  \<open>JSON.parse\<close> is the platform's: the parameter \<open>parse_json\<close> gives \<open>None\<close> when
  \<open>JSON.parse\<close> throws, and otherwise the value parsed, whatever its shape.
\<close>

record ChunkerResponse =
  cr_analysis :: js_string
  cr_chunks :: json

definition parseChunkerResponse ::
  "(js_string \<Rightarrow> json option) \<Rightarrow> js_string \<Rightarrow> ChunkerResponse" where
  "parseChunkerResponse parse_json response =
     (let analysisMatch =
            block (lit ''<chunking_analysis>'') (lit ''</chunking_analysis>'') response;
          analysis = (case analysisMatch of Some m \<Rightarrow> trim m | None \<Rightarrow> []);
          chunksMatch = block (lit ''<chunks>'') (lit ''</chunks>'') response;
          chunks = (case chunksMatch of
                      None \<Rightarrow> JArray []
                    | Some m \<Rightarrow>
                        (case parse_json (trim m) of Some v \<Rightarrow> v | None \<Rightarrow> JArray []))
      in \<lparr>cr_analysis = analysis, cr_chunks = chunks\<rparr>)"

subsection \<open>parseAnalyzerResponse (analyzer.ts)\<close>

record AnalyzerResponse =
  ar_analysis :: js_string
  ar_knowHow :: json

text \<open>The object that \<open>knowHow\<close> holds before the reply is parsed.\<close>

definition default_knowHow :: json where
  "default_knowHow =
     JObject [(lit ''decision_criteria'', JArray []), (lit ''success_signals'', JArray []),
              (lit ''failure_signals'', JArray []), (lit ''critical_fields'', JArray []),
              (lit ''corner_cases'', JArray []), (lit ''expert_shortcuts'', JArray [])]"

definition parseAnalyzerResponse ::
  "(js_string \<Rightarrow> json option) \<Rightarrow> js_string \<Rightarrow> AnalyzerResponse" where
  "parseAnalyzerResponse parse_json response =
     (let analysisMatch = block (lit ''<analysis>'') (lit ''</analysis>'') response;
          analysis = (case analysisMatch of Some m \<Rightarrow> trim m | None \<Rightarrow> []);
          knowHowMatch =
            block (lit ''<know_how_extraction>'') (lit ''</know_how_extraction>'') response;
          knowHow = (case knowHowMatch of
                       None \<Rightarrow> default_knowHow
                     | Some m \<Rightarrow>
                         (case parse_json (trim m) of
                            Some v \<Rightarrow> v
                          | None \<Rightarrow> default_knowHow))
      in \<lparr>ar_analysis = analysis, ar_knowHow = knowHow\<rparr>)"

subsection \<open>parseGeneratorResponse (markdown-generator.ts)\<close>

record GeneratorResponse =
  gr_summary :: js_string
  gr_instructions :: js_string
  gr_knowHow :: js_string
  gr_rawMarkdown :: js_string

text \<open>
  \<open>/# Summary\n([\s\S]*?)(?=\n# Instructions|\n# Know-How|$)/\<close>,
  \<open>/# Instructions\n([\s\S]*?)(?=\n# Know-How|$)/\<close> and \<open>/# Know-How\n([\s\S]*?)$/\<close>;
  without the \<open>m\<close> flag \<open>$\<close> is the end of the text.
\<close>

definition parseGeneratorResponse :: "js_string \<Rightarrow> GeneratorResponse" where
  "parseGeneratorResponse response =
     (let raw = trim response;
          summaryMatch =
            map_option (lazy_until [LF @ lit ''# Instructions'', LF @ lit ''# Know-How''])
              (after_first (lit ''# Summary'' @ LF) raw);
          instructionsMatch =
            map_option (lazy_until [LF @ lit ''# Know-How''])
              (after_first (lit ''# Instructions'' @ LF) raw);
          knowHowMatch = after_first (lit ''# Know-How'' @ LF) raw
      in \<lparr>gr_summary = (case summaryMatch of Some m \<Rightarrow> trim m | None \<Rightarrow> []),
          gr_instructions = (case instructionsMatch of Some m \<Rightarrow> trim m | None \<Rightarrow> []),
          gr_knowHow = (case knowHowMatch of Some m \<Rightarrow> trim m | None \<Rightarrow> []),
          gr_rawMarkdown = raw\<rparr>)"

section \<open>Pipeline orchestrator (generator.ts)\<close>

text \<open>
  The fields that are filled from a reply hold whatever value the reply gave, of the
  declared type or not.
\<close>

record ActionChunk =
  phase :: js_value
  ac_startIndex :: js_value
  ac_endIndex :: js_value
  ac_actions :: "Action list"
  ac_patterns :: js_value
  inferredIntent :: js_value

record DecisionCriterion =
  situation :: js_value
  criterion :: js_value
  sourcePattern :: js_value
  confidence :: js_value

record CornerCase =
  cc_situation :: js_value
  resolution :: js_value
  sourceEvidence :: js_value

record KnowHowExtraction =
  decisionCriteria :: "DecisionCriterion list"
  successSignals :: js_value
  failureSignals :: js_value
  criticalFields :: js_value
  cornerCases :: "CornerCase list"
  expertShortcuts :: js_value

record GeneratedOutput =
  summary :: js_string
  instructions :: js_string
  knowHow :: js_string
  rawMarkdown :: js_string

record GenerationResult =
  res_chunks :: "ActionChunk list"
  res_metrics :: TaskMetrics
  res_knowHow :: KnowHowExtraction
  res_output :: GeneratedOutput

text \<open>Of a \<open>TaskSession\<close> the generator reads \<open>id\<close> and \<open>actions\<close> only.\<close>

record TaskSession =
  task_id :: string
  task_actions :: "Action list"

text \<open>The objects handed to \<open>JSON.stringify\<close> when the chunks are formatted.\<close>

record SampleAction =
  sa_type :: ActionType
  sa_text :: string
  sa_pageTitle :: string

record ChunkSummary =
  cs_phase :: js_value
  cs_startIndex :: js_value
  cs_endIndex :: js_value
  cs_patterns :: js_value
  cs_inferredIntent :: js_value
  actionCount :: nat
  sampleActions :: "SampleAction list"

text \<open>
  \<open>slice\<close> converts each argument to an integer or an infinity before it uses it. The
  conversion is the language's. For a value \<open>v\<close> read from a reply, \<open>to_index v\<close> is the
  conversion of \<open>v\<close> and \<open>to_index_succ v\<close> that of \<open>v + 1\<close>; either throws a \<open>TypeError\<close>
  when \<open>v\<close> is an object that has no primitive value.
\<close>

datatype slice_index = Index int | PlusInf | MinusInf

text \<open>
  What the generator takes from outside: the URL parser, the configuration and the provider
  call of the generation client, \<open>JSON.parse\<close>, the two conversions above, and the
  serialisers and prompt templates, whose text no property below depends on. A prompt
  builder returns the pair \<open>(systemPrompt, userPrompt)\<close>.
\<close>

record gen_env =
  hostname_of :: "string \<Rightarrow> string option"
  llm_config :: LLMConfig
  provider_call :: "LLMProvider \<Rightarrow> string \<Rightarrow> CallOptions \<Rightarrow> string \<Rightarrow> string + js_string"
  parse_json :: "js_string \<Rightarrow> json option"
  to_index :: "js_value \<Rightarrow> thrown + slice_index"
  to_index_succ :: "js_value \<Rightarrow> thrown + slice_index"
  formatActionsForLLM :: "Action list \<Rightarrow> string"
  formatMetricsForLLM :: "TaskMetrics \<Rightarrow> string"
  stringify_chunks :: "ChunkSummary list \<Rightarrow> string"
  stringify_knowhow :: "json \<Rightarrow> string"
  buildChunkerPrompt :: "string \<Rightarrow> string \<Rightarrow> string \<times> string"
  buildAnalyzerPrompt :: "string \<Rightarrow> string \<Rightarrow> string \<Rightarrow> string \<times> string"
  buildGeneratorPrompt :: "string \<Rightarrow> string \<Rightarrow> string \<Rightarrow> string \<times> string"

text \<open>
  \<open>xs.slice(a, b)\<close> on converted arguments: a negative index counts from the end, and
  both ends are clamped to the array.
\<close>

definition clamp_index :: "nat \<Rightarrow> slice_index \<Rightarrow> nat" where
  "clamp_index len r =
     (case r of
        MinusInf \<Rightarrow> 0
      | PlusInf \<Rightarrow> len
      | Index a \<Rightarrow> if a < 0 then nat (max (int len + a) 0) else nat (min a (int len)))"

definition js_slice :: "'a list \<Rightarrow> slice_index \<Rightarrow> slice_index \<Rightarrow> 'a list" where
  "js_slice xs a b =
     (let len = length xs;
          k = clamp_index len a;
          fin = clamp_index len b
      in take (fin - k) (drop k xs))"

definition createEmptyResult :: GenerationResult where
  "createEmptyResult =
     \<lparr>res_chunks = [],
      res_metrics =
        \<lparr>totalActions = 0, totalDurationMs = 0, longPauses = [], backForthPatterns = [],
         repeatedActions = [], extractionActions = [], urlChanges = 0, uniqueDomains = []\<rparr>,
      res_knowHow =
        \<lparr>decisionCriteria = [], successSignals = Some (JArray []),
         failureSignals = Some (JArray []), criticalFields = Some (JArray []),
         cornerCases = [], expertShortcuts = Some (JArray [])\<rparr>,
      res_output =
        \<lparr>summary = lit ''No actions were recorded.'',
         instructions = lit ''No steps to document.'',
         knowHow = lit ''No know-how extracted.'',
         rawMarkdown =
           lit ''# Summary'' @ LF @ LF @ lit ''No actions were recorded.'' @ LF @ LF @
           lit ''# Instructions'' @ LF @ LF @ lit ''No steps to document.'' @ LF @ LF @
           lit ''# Know-How'' @ LF @ LF @ lit ''No know-how extracted.''\<rparr>\<rparr>"

text \<open>
  A run of the generator gives its outcome, \<open>Inr\<close> the result returned or \<open>Inl\<close> what was
  thrown, and the calls of \<open>complete\<close> it issued, in order, each with its prompt and
  options. An error thrown by an awaited \<open>complete\<close>, and a \<open>TypeError\<close> raised while a
  parsed value is converted, leave \<open>generateDocumentation\<close> at once.
\<close>

type_synonym gen_call = "string \<times> CompletionOptions"

type_synonym gen_run = "(thrown + GenerationResult) \<times> gen_call list"

definition await_complete :: "gen_env \<Rightarrow> gen_call \<Rightarrow> string + js_string" where
  "await_complete env c = snd (complete (llm_config env) (provider_call env) (fst c) (snd c))"

text \<open>
  The callback of \<open>chunkerParsed.chunks.map\<close>. The properties of the chunk are read in
  the order of the source; then \<open>slice\<close> converts its two arguments.
\<close>

definition convert_chunk :: "gen_env \<Rightarrow> TaskSession \<Rightarrow> json \<Rightarrow> thrown + ActionChunk" where
  "convert_chunk env task chunk =
     and_then (read_prop chunk (lit ''phase'')) (\<lambda>chunk_phase.
     and_then (read_prop chunk (lit ''startIndex'')) (\<lambda>chunk_startIndex.
     and_then (read_prop chunk (lit ''endIndex'')) (\<lambda>chunk_endIndex.
     and_then (to_index_succ env chunk_endIndex) (\<lambda>fin.
     and_then (to_index env chunk_startIndex) (\<lambda>start.
     and_then (read_prop chunk (lit ''patterns'')) (\<lambda>chunk_patterns.
     and_then (read_prop chunk (lit ''inferredIntent'')) (\<lambda>chunk_inferredIntent.
       Inr \<lparr>phase = chunk_phase, ac_startIndex = chunk_startIndex,
            ac_endIndex = chunk_endIndex,
            ac_actions = js_slice (task_actions task) start fin,
            ac_patterns = chunk_patterns,
            inferredIntent = chunk_inferredIntent\<rparr>)))))))"

text \<open>The object literal assigned to \<open>knowHow\<close>, its properties evaluated in order.\<close>

definition convert_decision_criterion :: "json \<Rightarrow> thrown + DecisionCriterion" where
  "convert_decision_criterion dc =
     and_then (read_prop dc (lit ''situation'')) (\<lambda>dc_situation.
     and_then (read_prop dc (lit ''criterion'')) (\<lambda>dc_criterion.
     and_then (read_prop dc (lit ''source_pattern'')) (\<lambda>dc_source_pattern.
     and_then (read_prop dc (lit ''confidence'')) (\<lambda>dc_confidence.
       Inr \<lparr>situation = dc_situation, criterion = dc_criterion,
            sourcePattern = dc_source_pattern, confidence = dc_confidence\<rparr>))))"

definition convert_corner_case :: "json \<Rightarrow> thrown + CornerCase" where
  "convert_corner_case cc =
     and_then (read_prop cc (lit ''situation'')) (\<lambda>cc_sit.
     and_then (read_prop cc (lit ''resolution'')) (\<lambda>cc_resolution.
     and_then (read_prop cc (lit ''source_evidence'')) (\<lambda>cc_source_evidence.
       Inr \<lparr>cc_situation = cc_sit, resolution = cc_resolution,
            sourceEvidence = cc_source_evidence\<rparr>)))"

definition convert_knowHow :: "json \<Rightarrow> thrown + KnowHowExtraction" where
  "convert_knowHow parsed =
     and_then (read_prop parsed (lit ''decision_criteria'')) (\<lambda>decision_criteria.
     and_then (array_map convert_decision_criterion decision_criteria) (\<lambda>dcs.
     and_then (read_prop parsed (lit ''success_signals'')) (\<lambda>success_signals.
     and_then (read_prop parsed (lit ''failure_signals'')) (\<lambda>failure_signals.
     and_then (read_prop parsed (lit ''critical_fields'')) (\<lambda>critical_fields.
     and_then (read_prop parsed (lit ''corner_cases'')) (\<lambda>corner_cases.
     and_then (array_map convert_corner_case corner_cases) (\<lambda>ccs.
     and_then (read_prop parsed (lit ''expert_shortcuts'')) (\<lambda>expert_shortcuts.
       Inr \<lparr>decisionCriteria = dcs, successSignals = success_signals,
            failureSignals = failure_signals, criticalFields = critical_fields,
            cornerCases = ccs, expertShortcuts = expert_shortcuts\<rparr>))))))))"

text \<open>Step 4 of the source, from \<open>buildGeneratorPrompt\<close> to the \<open>return\<close>.\<close>

definition generator_stage ::
  "gen_env \<Rightarrow> TaskMetrics \<Rightarrow> string \<Rightarrow> ActionChunk list \<Rightarrow> string \<Rightarrow> KnowHowExtraction
     \<Rightarrow> string \<Rightarrow> gen_run" where
  "generator_stage env metrics metricsJson chunks chunksJson know knowHowJson =
     (let (generatorSystem, generatorUser) =
            buildGeneratorPrompt env chunksJson knowHowJson metricsJson;
          c = (generatorUser,
               \<lparr>systemPrompt = Some generatorSystem, maxTokens = Some 4096, temperature = None\<rparr>)
      in case await_complete env c of
           Inl err \<Rightarrow> (Inl (Error err), [c])
         | Inr generatorResponse \<Rightarrow>
             (let generatorParsed = parseGeneratorResponse generatorResponse;
                  out = \<lparr>summary = gr_summary generatorParsed,
                         instructions = gr_instructions generatorParsed,
                         knowHow = gr_knowHow generatorParsed,
                         rawMarkdown = gr_rawMarkdown generatorParsed\<rparr>
              in (Inr \<lparr>res_chunks = chunks, res_metrics = metrics, res_knowHow = know,
                       res_output = out\<rparr>, [c])))"

text \<open>
  Step 3 of the source, from \<open>// Format chunks for next step\<close> to the end of step 3,
  followed by step 4.
\<close>

definition analyzer_stage ::
  "gen_env \<Rightarrow> TaskMetrics \<Rightarrow> string \<Rightarrow> string \<Rightarrow> ActionChunk list \<Rightarrow> gen_run" where
  "analyzer_stage env metrics actionsJson metricsJson chunks =
     (let chunksJson =
            stringify_chunks env
              (map (\<lambda>c.
                      \<lparr>cs_phase = phase c, cs_startIndex = ac_startIndex c,
                       cs_endIndex = ac_endIndex c, cs_patterns = ac_patterns c,
                       cs_inferredIntent = inferredIntent c,
                       actionCount = length (ac_actions c),
                       sampleActions =
                         map (\<lambda>a. \<lparr>sa_type = atype a,
                                    sa_text = js_slice (target_text (target a))
                                                (Index 0) (Index 30),
                                    sa_pageTitle = pageTitle (metadata a)\<rparr>)
                           (js_slice (ac_actions c) (Index 0) (Index 3))\<rparr>) chunks);
          (analyzerSystem, analyzerUser) =
            buildAnalyzerPrompt env chunksJson actionsJson metricsJson;
          c = (analyzerUser,
               \<lparr>systemPrompt = Some analyzerSystem, maxTokens = Some 2048, temperature = None\<rparr>)
      in case await_complete env c of
           Inl err \<Rightarrow> (Inl (Error err), [c])
         | Inr analyzerResponse \<Rightarrow>
             (let analyzerParsed = parseAnalyzerResponse (parse_json env) analyzerResponse
              in case convert_knowHow (ar_knowHow analyzerParsed) of
                   Inl e \<Rightarrow> (Inl e, [c])
                 | Inr know \<Rightarrow>
                     (let knowHowJson = stringify_knowhow env (ar_knowHow analyzerParsed);
                          (r, calls) = generator_stage env metrics metricsJson chunks
                                         chunksJson know knowHowJson
                      in (r, c # calls))))"

text \<open>
  The source from \<open>// Convert chunks to our internal format\<close> on: the parsed chunks of the
  segmenter stage are converted, and the later steps follow.
\<close>

definition chunks_stage ::
  "gen_env \<Rightarrow> TaskSession \<Rightarrow> TaskMetrics \<Rightarrow> string \<Rightarrow> string \<Rightarrow> json \<Rightarrow> gen_run" where
  "chunks_stage env task metrics actionsJson metricsJson parsed_chunks =
     (case array_map (convert_chunk env task) (Some parsed_chunks) of
        Inl e \<Rightarrow> (Inl e, [])
      | Inr chunks \<Rightarrow> analyzer_stage env metrics actionsJson metricsJson chunks)"

definition generateDocumentation :: "gen_env \<Rightarrow> TaskSession \<Rightarrow> gen_run" where
  "generateDocumentation env task =
     (if length (task_actions task) = 0 then (Inr createEmptyResult, [])
      else
        (let metrics = calculateMetrics (hostname_of env) (task_actions task);
             actionsJson = formatActionsForLLM env (task_actions task);
             metricsJson = formatMetricsForLLM env metrics;
             (chunkerSystem, chunkerUser) = buildChunkerPrompt env actionsJson metricsJson;
             c = (chunkerUser,
                  \<lparr>systemPrompt = Some chunkerSystem, maxTokens = Some 2048, temperature = None\<rparr>)
         in case await_complete env c of
              Inl err \<Rightarrow> (Inl (Error err), [c])
            | Inr chunkerResponse \<Rightarrow>
                (let chunkerParsed = parseChunkerResponse (parse_json env) chunkerResponse;
                     (r, calls) = chunks_stage env task metrics actionsJson metricsJson
                                    (cr_chunks chunkerParsed)
                 in (r, c # calls))))"

section \<open>Specification predicates and loop invariants\<close>

subsection \<open>Pre-segmenter\<close>

text \<open>
  \<open>chain_ok actions cs start\<close>: the chunks \<open>cs\<close> begin at index 0, each begins where the
  one before it ended, none is empty, each holds its slice of \<open>actions\<close>, and the next chunk
  would begin at \<open>start\<close>.
\<close>

definition chain_ok :: "Action list \<Rightarrow> PreChunk list \<Rightarrow> nat \<Rightarrow> bool" where
  "chain_ok actions cs start \<longleftrightarrow>
     (cs = [] \<longrightarrow> start = 0) \<and>
     (cs \<noteq> [] \<longrightarrow> startIndex (hd cs) = 0 \<and> Suc (endIndex (last cs)) = start) \<and>
     (\<forall>j. Suc j < length cs \<longrightarrow> startIndex (cs ! Suc j) = Suc (endIndex (cs ! j))) \<and>
     (\<forall>c \<in> set cs. startIndex c \<le> endIndex c \<and>
                     pc_actions c = slice actions (startIndex c) (Suc (endIndex c)))"

text \<open>What the loop body decides at index \<open>i\<close>, read off the two actions involved.\<close>

definition decision_at :: "(string \<Rightarrow> string option) \<Rightarrow> Action list \<Rightarrow> nat \<Rightarrow> Boundary option" where
  "decision_at hostname actions i =
     split_decision hostname (url (actions ! (i - 1)))
       (getActionMode (atype (actions ! (i - 1)))) (actions ! i)"

text \<open>The state of the loop of \<open>preChunkActions\<close> when it is about to handle index \<open>k\<close>.\<close>

definition pc_inv :: "(string \<Rightarrow> string option) \<Rightarrow> Action list \<Rightarrow> nat \<Rightarrow> pc_state \<Rightarrow> bool" where
  "pc_inv hostname actions k st \<longleftrightarrow>
     currentChunkStart st < k \<and>
     pc_lastUrl st = url (actions ! (k - 1)) \<and>
     lastMode st = getActionMode (atype (actions ! (k - 1))) \<and>
     chain_ok actions (pc_chunks st) (currentChunkStart st) \<and>
     (\<forall>c \<in> set (pc_chunks st). Suc (endIndex c) < k) \<and>
     (\<forall>i b. 1 \<le> i \<and> i < k \<longrightarrow>
        ((\<exists>c \<in> set (pc_chunks st). endIndex c = i - 1 \<and> boundary c = b) \<longleftrightarrow>
         decision_at hostname actions i = Some b))"

subsection \<open>Repeated actions\<close>






subsection \<open>Back-and-forth patterns\<close>

definition visit_at :: "Action list \<Rightarrow> nat \<Rightarrow> UrlVisit" where
  "visit_at actions j = \<lparr>v_url = url (actions ! j), v_index = j\<rparr>"

text \<open>
  The pattern pushed while action \<open>i\<close> is handled: the window holds the visits
  \<open>i - 10, \<dots>, i - 1\<close>, the last of which is excluded from the search.
\<close>

definition pattern_at :: "Action list \<Rightarrow> nat \<Rightarrow> BackForthPattern list" where
  "pattern_at actions i =
     (case List.find (\<lambda>j. url (actions ! j) = url (actions ! i)) [i - 10..<i - 1] of
        None \<Rightarrow> []
      | Some j \<Rightarrow> [\<lparr>bf_indices = [j..<Suc i]\<rparr>])"

subsection \<open>Rendered documents\<close>

text \<open>
  A document with the three headings in order, each on a line of its own, followed by its
  section body.
\<close>

definition render_sections :: "js_string \<Rightarrow> js_string \<Rightarrow> js_string \<Rightarrow> js_string" where
  "render_sections s i k =
     lit ''# Summary'' @ LF @ s @ LF @ lit ''# Instructions'' @ LF @ i @ LF @
     lit ''# Know-How'' @ LF @ k"

text \<open>\<open>trim\<close> removes the white space in front, then the white space at the end.\<close>

definition trim_end :: "js_string \<Rightarrow> js_string" where
  "trim_end s = rev (dropWhile is_space (rev s))"

subsection \<open>Stages of the pipeline\<close>

text \<open>
  The call of \<open>complete\<close> that the segmenter stage issues: the prompt built from the
  formatted actions and metrics, with \<open>maxTokens: 2048\<close>.
\<close>

definition chunker_request :: "gen_env \<Rightarrow> TaskSession \<Rightarrow> gen_call" where
  "chunker_request env task =
     (let metrics = calculateMetrics (hostname_of env) (task_actions task);
          actionsJson = formatActionsForLLM env (task_actions task);
          metricsJson = formatMetricsForLLM env metrics;
          (chunkerSystem, chunkerUser) = buildChunkerPrompt env actionsJson metricsJson
      in (chunkerUser,
          \<lparr>systemPrompt = Some chunkerSystem, maxTokens = Some 2048, temperature = None\<rparr>))"

text \<open>
  The call of \<open>complete\<close> that the extractor stage issues when the segmenter stage gave no
  chunks: the prompt built from the formatted empty list, with \<open>maxTokens: 2048\<close>.
\<close>

definition analyzer_request :: "gen_env \<Rightarrow> TaskSession \<Rightarrow> gen_call" where
  "analyzer_request env task =
     (let metrics = calculateMetrics (hostname_of env) (task_actions task);
          actionsJson = formatActionsForLLM env (task_actions task);
          metricsJson = formatMetricsForLLM env metrics;
          (analyzerSystem, analyzerUser) =
            buildAnalyzerPrompt env (stringify_chunks env []) actionsJson metricsJson
      in (analyzerUser,
          \<lparr>systemPrompt = Some analyzerSystem, maxTokens = Some 2048, temperature = None\<rparr>))"




section \<open>Example inputs\<close>

text \<open>
  A URL parser for the examples. On the four texts that the examples use it agrees with the
  platform's: three absolute addresses with their host names, and a text that is no URL.
\<close>

definition ex_hostname :: "string \<Rightarrow> string option" where
  "ex_hostname u =
     (if u = ''https://a.com/'' then Some ''a.com''
      else if u = ''https://a.com/x'' then Some ''a.com''
      else if u = ''https://b.com/'' then Some ''b.com''
      else None)"

definition mk_action :: "ActionType \<Rightarrow> string \<Rightarrow> int option \<Rightarrow> Action" where
  "mk_action t u idle =
     \<lparr>atype = t, timestamp = 0, url = u,
      target = \<lparr>selector = ''#el'', target_text = ''text'', role = None\<rparr>,
      metadata = \<lparr>pageTitle = ''Page'', h1 = None, idleTimeBefore = idle\<rparr>\<rparr>"

text \<open>
  Five actions: a long pause before the second, a new host at the third, a change of mode
  at the fourth, nothing at the fifth.
\<close>

definition ex_session :: "Action list" where
  "ex_session =
     [mk_action Click ''https://a.com/'' None,
      mk_action Click ''https://a.com/'' (Some 20000),
      mk_action Click ''https://b.com/'' None,
      mk_action Copy ''https://b.com/'' (Some 100),
      mk_action Copy ''https://b.com/'' None]"

text \<open>Two actions whose common URL text is not a URL: \<open>new URL\<close> throws on it.\<close>

definition ex_unparsable :: "Action list" where
  "ex_unparsable =
     [mk_action Click ''not a url'' None, mk_action Click ''not a url'' None]"

text \<open>A click and a copy on two pages of one host.\<close>

definition ex_same_host :: "Action list" where
  "ex_same_host =
     [mk_action Click ''https://a.com/'' None, mk_action Copy ''https://a.com/x'' None]"

text \<open>Two clicks on two pages of one host.\<close>

definition ex_two_pages :: "Action list" where
  "ex_two_pages =
     [mk_action Click ''https://a.com/'' None, mk_action Click ''https://a.com/x'' None]"

text \<open>Six visits: one page, then two pages visited in alternation.\<close>

definition ex_backforth :: "Action list" where
  "ex_backforth =
     [mk_action Navigation ''https://b.com/'' None,
      mk_action Navigation ''https://a.com/'' None,
      mk_action Navigation ''https://a.com/x'' None,
      mk_action Navigation ''https://a.com/'' None,
      mk_action Navigation ''https://a.com/x'' None,
      mk_action Navigation ''https://a.com/'' None]"


subsection \<open>Section bodies\<close>

text \<open>
  Three section bodies, each set off by blank lines; the last ends with a no-break space
  and a line separator.
\<close>

definition ex_summary :: js_string where
  "ex_summary = LF @ lit ''Book a flight.'' @ LF"

definition ex_instructions :: js_string where
  "ex_instructions = LF @ lit ''1. Open the site.'' @ LF"

definition ex_know_how :: js_string where
  "ex_know_how = LF @ lit ''Check the date.'' @ [0x00A0, 0x2028]"

subsection \<open>Configuration and providers\<close>

definition ex_config :: LLMConfig where
  "ex_config =
     \<lparr>provider = Openai, models = [''gpt-4o'', ''gpt-4o-mini'', ''gpt-4-turbo''],
      cfg_maxTokens = Some 4096\<rparr>"

definition ex_options :: CompletionOptions where
  "ex_options = \<lparr>systemPrompt = None, maxTokens = None, temperature = None\<rparr>"

text \<open>A provider on which every model fails, with a message of its own.\<close>

definition ex_call_down ::
  "LLMProvider \<Rightarrow> string \<Rightarrow> CallOptions \<Rightarrow> string \<Rightarrow> string + js_string" where
  "ex_call_down p prompt opts model = Inl (''no '' @ model)"

text \<open>A provider on which only the second model of the chain answers.\<close>

definition ex_call_second ::
  "LLMProvider \<Rightarrow> string \<Rightarrow> CallOptions \<Rightarrow> string \<Rightarrow> string + js_string" where
  "ex_call_second p prompt opts model =
     (if model = ''gpt-4o-mini'' then Inr (lit ''OK'') else Inl ''rate limit'')"



text \<open>
  A provider whose reply to the segmenter prompt has a \<open><chunks>\<close> block that holds an
  object instead of an array.
\<close>

definition ex_call_object ::
  "LLMProvider \<Rightarrow> string \<Rightarrow> CallOptions \<Rightarrow> string \<Rightarrow> string + js_string" where
  "ex_call_object p prompt opts model =
     (if call_systemPrompt opts = Some ''segment''
      then Inr (lit ''<chunks>{}</chunks>'')
      else Inr (lit ''Sorry.''))"

text \<open>
  A provider that answers the segmenter prompt with prose and the extractor prompt with a
  know-how block that holds the empty object.
\<close>

definition ex_call_shapeless ::
  "LLMProvider \<Rightarrow> string \<Rightarrow> CallOptions \<Rightarrow> string \<Rightarrow> string + js_string" where
  "ex_call_shapeless p prompt opts model =
     (if call_systemPrompt opts = Some ''extract''
      then Inr (lit ''<know_how_extraction>{}</know_how_extraction>'')
      else Inr (lit ''Sorry, no segments.''))"

text \<open>
  A JSON parser for the examples. On the three texts that the examples hand to it, it
  agrees with \<open>JSON.parse\<close>: an empty array, an empty object, and a text that is no JSON.
\<close>

definition ex_parse_json :: "js_string \<Rightarrow> json option" where
  "ex_parse_json t =
     (if t = lit ''[]'' then Some (JArray [])
      else if t = lit ''{}'' then Some (JObject [])
      else None)"

text \<open>
  The examples convert no index, so the two conversions are given a constant. The system
  prompts name the stage, and the user prompts join their parts.
\<close>

definition ex_env ::
  "(LLMProvider \<Rightarrow> string \<Rightarrow> CallOptions \<Rightarrow> string \<Rightarrow> string + js_string) \<Rightarrow> gen_env" where
  "ex_env call =
     \<lparr>hostname_of = ex_hostname, llm_config = ex_config, provider_call = call,
      parse_json = ex_parse_json,
      to_index = (\<lambda>v. Inr (Index 0)), to_index_succ = (\<lambda>v. Inr (Index 0)),
      formatActionsForLLM = (\<lambda>a. ''[]''), formatMetricsForLLM = (\<lambda>m. ''{}''),
      stringify_chunks = (\<lambda>c. ''[]''), stringify_knowhow = (\<lambda>k. ''{}''),
      buildChunkerPrompt = (\<lambda>a m. (''segment'', a @ m)),
      buildAnalyzerPrompt = (\<lambda>c a m. (''extract'', c @ a @ m)),
      buildGeneratorPrompt = (\<lambda>c k m. (''render'', c @ k @ m))\<rparr>"

definition ex_task :: TaskSession where
  "ex_task = \<lparr>task_id = ''t1'', task_actions = ex_session\<rparr>"

section \<open>Properties of the metrics engine\<close>

subsection \<open>Extraction actions\<close>




subsection \<open>URL changes\<close>

lemma url_fold_inv:
  "as \<noteq> [] \<Longrightarrow> url (as ! 0) \<noteq> '''' \<Longrightarrow>
   lastUrl (foldl (url_body hn) \<lparr>us_urlChanges = 0, lastUrl = '''', domains = []\<rparr> as) = url (last as) \<and>
   us_urlChanges (foldl (url_body hn) \<lparr>us_urlChanges = 0, lastUrl = '''', domains = []\<rparr> as) =
     1 + length (filter (\<lambda>i. url (as ! i) \<noteq> url (as ! (i - 1))) [1..<length as])"
proof (induction as rule: rev_induct)
  case Nil
  then show ?case by simp
next
  case (snoc a as)
  show ?case
  proof (cases "as = []")
    case True
    with snoc.prems show ?thesis
      by (simp add: url_body_def split: option.splits)
  next
    case False
    then have h0: "url (as ! 0) \<noteq> ''''" using snoc.prems(2) by (simp add: nth_append)
    note IH = snoc.IH [OF False h0]
    have len: "1 \<le> length as" using False by (cases as) simp_all
    have f: "filter (\<lambda>i. url ((as @ [a]) ! i) \<noteq> url ((as @ [a]) ! (i - 1))) [1..<length as]
           = filter (\<lambda>i. url (as ! i) \<noteq> url (as ! (i - 1))) [1..<length as]"
      by (rule filter_cong) (auto simp: nth_append)
    have l: "(as @ [a]) ! (length as - 1) = last as"
      using False by (simp add: nth_append last_conv_nth)
    show ?thesis
      using IH len f l
      by (simp add: url_body_def nth_append split: option.splits)
  qed
qed

text \<open>
  Claim C10. The counter of URL changes starts from the empty text, so in a non-empty
  list whose first URL is not empty the first action counts as a change: the count is one
  more than the number of actions whose URL differs from that of the action before. When
  all actions carry the same non-empty URL the count is 1.
\<close>

theorem urlChanges_counts_first_action:
  "(actions \<noteq> [] \<and> url (actions ! 0) \<noteq> '''' \<longrightarrow>
      urlChanges (calculateMetrics hostname actions) =
        1 + length (filter (\<lambda>i. url (actions ! i) \<noteq> url (actions ! (i - 1)))
                      [1..<length actions])) \<and>
   (actions \<noteq> [] \<and> u \<noteq> '''' \<and> (\<forall>a \<in> set actions. url a = u) \<longrightarrow>
      urlChanges (calculateMetrics hostname actions) = 1)"
proof (intro conjI impI)
  assume a: "actions \<noteq> [] \<and> url (actions ! 0) \<noteq> ''''"
  then show "urlChanges (calculateMetrics hostname actions) =
        1 + length (filter (\<lambda>i. url (actions ! i) \<noteq> url (actions ! (i - 1)))
                      [1..<length actions])"
    using url_fold_inv [of actions hostname]
    by (simp add: calculateMetrics_def analyzeUrls_def Let_def)
next
  assume b: "actions \<noteq> [] \<and> u \<noteq> '''' \<and> (\<forall>a \<in> set actions. url a = u)"
  then have same: "url (actions ! i) = u" if "i < length actions" for i
    using that by simp
  from b have "url (actions ! 0) \<noteq> ''''" using same [of 0] by simp
  moreover have "filter (\<lambda>i. url (actions ! i) \<noteq> url (actions ! (i - 1))) [1..<length actions] = []"
    unfolding filter_empty_conv
  proof
    fix i assume "i \<in> set [1..<length actions]"
    then have "i < length actions" "i - 1 < length actions" by auto
    then show "\<not> url (actions ! i) \<noteq> url (actions ! (i - 1))"
      using same [of i] same [of "i - 1"] by simp
  qed
  ultimately show "urlChanges (calculateMetrics hostname actions) = 1"
    using b url_fold_inv [of actions hostname]
    by (simp add: calculateMetrics_def analyzeUrls_def Let_def)
qed

theorem urlChanges_counts_first_action_witness:
  "urlChanges (calculateMetrics ex_hostname ex_unparsable) = 1 \<and>
   urlChanges (calculateMetrics ex_hostname ex_session) = 2"
  using urlChanges_counts_first_action [of ex_unparsable ex_hostname "''not a url''"]
        urlChanges_counts_first_action [of ex_session ex_hostname "''''"]
  by (simp add: ex_unparsable_def ex_session_def mk_action_def)

subsection \<open>Repeated actions\<close>
















subsection \<open>Back-and-forth patterns\<close>

lemma find_map_shift:
  "List.find P (map g xs) = map_option g (List.find (\<lambda>x. P (g x)) xs)"
  by (induction xs) simp_all

lemma find_snoc_false:
  "\<not> P x \<Longrightarrow> List.find P (xs @ [x]) = List.find P xs"
  by (induction xs) simp_all

lemma upt_shift: "[lo..<lo + m] = map (\<lambda>i. lo + i) [0..<m]"
  by (induction m) simp_all

lemma find_previous_window:
  assumes hist: "hist = map (visit_at actions) [lo..<k]" and lo: "lo \<le> k"
  shows "find_previous hist cur =
           map_option (\<lambda>j. j - lo) (List.find (\<lambda>j. url (actions ! j) = cur) [lo..<k - 1])"
proof -
  let ?L = "k - lo"
  have len: "length hist = ?L" by (simp add: hist)
  have nth: "v_url (hist ! idx) = url (actions ! (lo + idx))" if "idx < ?L" for idx
    using that by (simp add: hist visit_at_def)
  have a: "find_previous hist cur =
        List.find (\<lambda>idx. url (actions ! (lo + idx)) = cur \<and> Suc idx < ?L) [0..<?L]"
    unfolding find_previous_def len
    by (rule find_cong) (auto simp: nth)
  have b: "List.find (\<lambda>idx. url (actions ! (lo + idx)) = cur \<and> Suc idx < ?L) [0..<?L] =
        List.find (\<lambda>idx. url (actions ! (lo + idx)) = cur) [0..<?L - 1]"
  proof (cases "?L = 0")
    case True
    then show ?thesis by simp
  next
    case False
    then have split: "[0..<?L] = [0..<?L - 1] @ [?L - 1]"
      by (metis Suc_diff_1 neq0_conv upt_Suc_append zero_le)
    have "List.find (\<lambda>idx. url (actions ! (lo + idx)) = cur \<and> Suc idx < ?L) [0..<?L] =
          List.find (\<lambda>idx. url (actions ! (lo + idx)) = cur \<and> Suc idx < ?L) [0..<?L - 1]"
    proof -
      have notP: "\<not> (url (actions ! (lo + (?L - 1))) = cur \<and> Suc (?L - 1) < ?L)"
      proof -
        have "\<not> Suc (?L - 1) < ?L" using False by arith
        then show ?thesis by blast
      qed
      from find_snoc_false [of "\<lambda>idx. url (actions ! (lo + idx)) = cur \<and> Suc idx < ?L"
             "?L - 1" "[0..<?L - 1]", OF notP]
      show ?thesis by (simp only: split [symmetric])
    qed
    also have "\<dots> = List.find (\<lambda>idx. url (actions ! (lo + idx)) = cur) [0..<?L - 1]"
      by (rule find_cong) auto
    finally show ?thesis .
  qed
  have c: "[lo..<k - 1] = map (\<lambda>i. lo + i) [0..<?L - 1]"
  proof (cases "lo < k")
    case True
    then have "k - 1 = lo + (?L - 1)" by simp
    then show ?thesis using upt_shift [of lo "?L - 1"] by simp
  next
    case False
    then show ?thesis by simp
  qed
  have d: "List.find (\<lambda>j. url (actions ! j) = cur) [lo..<k - 1] =
        map_option (\<lambda>i. lo + i) (List.find (\<lambda>idx. url (actions ! (lo + idx)) = cur) [0..<?L - 1])"
    unfolding c by (rule find_map_shift)
  show ?thesis
    unfolding a b d by (simp add: option.map_comp comp_def option.map_ident)
qed

lemma bf_body_patterns:
  assumes hist: "urlHistory st = map (visit_at actions) [k - 10..<k]"
  shows "patterns (bf_body actions st k) = patterns st @ pattern_at actions k"
proof -
  let ?lo = "k - 10"
  let ?cur = "url (actions ! k)"
  have fp: "find_previous (urlHistory st) ?cur =
        map_option (\<lambda>j. j - ?lo) (List.find (\<lambda>j. url (actions ! j) = ?cur) [?lo..<k - 1])"
    by (rule find_previous_window [OF hist]) simp
  show ?thesis
  proof (cases "List.find (\<lambda>j. url (actions ! j) = ?cur) [?lo..<k - 1]")
    case None
    then show ?thesis
      by (simp add: bf_body_def Let_def fp pattern_at_def)
  next
    case (Some j)
    then have "j \<in> set [?lo..<k - 1]"
      by (auto simp: find_Some_iff)
    then have lo: "?lo \<le> j" and hi: "Suc j < k" by auto
    have idx: "?lo + (j - ?lo) = j" using lo by simp
    have len: "length (urlHistory st) = k - ?lo" by (simp add: hist)
    have pos: "0 < length (urlHistory st)" using hi len by simp
    have at: "urlHistory st ! (j - ?lo) = visit_at actions j"
      using lo hi by (simp add: hist idx)
    have "drop (j - ?lo + 1) (urlHistory st) = map (visit_at actions) [Suc j..<k]"
      using lo by (simp add: hist drop_map)
    then have mid: "map v_index (drop (j - ?lo + 1) (urlHistory st)) = [Suc j..<k]"
      by (simp add: visit_at_def comp_def)
    have all: "[v_index (visit_at actions j)] @ [Suc j..<k] @ [k] = [j..<Suc k]"
      using hi by (simp add: visit_at_def upt_conv_Cons)
    have fp': "find_previous (urlHistory st) ?cur = Some (j - ?lo)"
      unfolding fp Some by simp
    have "patterns (bf_body actions st k) =
          (case find_previous (urlHistory st) ?cur of
             None \<Rightarrow> patterns st
           | Some k0 \<Rightarrow>
               if length (urlHistory st) > 0 then
                 (let intermediateIndices = map v_index (drop (k0 + 1) (urlHistory st))
                  in if length intermediateIndices > 0
                     then patterns st @
                            [\<lparr>bf_indices = [v_index (urlHistory st ! k0)] @ intermediateIndices @ [k]\<rparr>]
                     else patterns st)
               else patterns st)"
      by (simp add: bf_body_def Let_def)
    also have "\<dots> = patterns st @ [\<lparr>bf_indices = [j..<Suc k]\<rparr>]"
      unfolding fp' option.case Let_def mid at all using pos hi by simp
    finally have "patterns (bf_body actions st k) =
                  patterns st @ [\<lparr>bf_indices = [j..<Suc k]\<rparr>]" .
    moreover have "pattern_at actions k = [\<lparr>bf_indices = [j..<Suc k]\<rparr>]"
      unfolding pattern_at_def Some by simp
    ultimately show ?thesis by simp
  qed
qed

lemma bf_body_history:
  assumes hist: "urlHistory st = map (visit_at actions) [k - 10..<k]"
  shows "urlHistory (bf_body actions st k) = map (visit_at actions) [Suc k - 10..<Suc k]"
proof -
  have pushed: "urlHistory st @ [\<lparr>v_url = url (actions ! k), v_index = k\<rparr>] =
        map (visit_at actions) [k - 10..<Suc k]"
    by (simp add: hist visit_at_def)
  have len: "length (map (visit_at actions) [k - 10..<Suc k]) = Suc k - (k - 10)"
    by simp
  have "urlHistory (bf_body actions st k) =
        (if length (urlHistory st @ [\<lparr>v_url = url (actions ! k), v_index = k\<rparr>]) > 10
         then tl (urlHistory st @ [\<lparr>v_url = url (actions ! k), v_index = k\<rparr>])
         else urlHistory st @ [\<lparr>v_url = url (actions ! k), v_index = k\<rparr>])"
    by (simp add: bf_body_def Let_def)
  then have body: "urlHistory (bf_body actions st k) =
        (if Suc k - (k - 10) > 10
         then tl (map (visit_at actions) [k - 10..<Suc k])
         else map (visit_at actions) [k - 10..<Suc k])"
    unfolding pushed len .
  show ?thesis
  proof (cases "10 \<le> k")
    case True
    then have "tl [k - 10..<Suc k] = [Suc k - 10..<Suc k]"
      by (simp add: upt_conv_Cons Suc_diff_le del: upt_Suc)
    then have "tl (map (visit_at actions) [k - 10..<Suc k]) =
               map (visit_at actions) [Suc k - 10..<Suc k]"
      by (simp only: map_tl [symmetric])
    moreover have "Suc k - (k - 10) > 10" using True by simp
    ultimately show ?thesis unfolding body by simp
  next
    case False
    then have "k - 10 = 0" "Suc k - 10 = 0" "\<not> Suc k - (k - 10) > 10" by simp_all
    then show ?thesis unfolding body by simp
  qed
qed

lemma bf_loop_inv:
  "urlHistory (foldl (bf_body actions) \<lparr>patterns = [], urlHistory = []\<rparr> [0..<k]) =
     map (visit_at actions) [k - 10..<k] \<and>
   patterns (foldl (bf_body actions) \<lparr>patterns = [], urlHistory = []\<rparr> [0..<k]) =
     concat (map (pattern_at actions) [0..<k])"
proof (induction k)
  case 0
  show ?case by simp
next
  case (Suc k)
  let ?st = "foldl (bf_body actions) \<lparr>patterns = [], urlHistory = []\<rparr> [0..<k]"
  from Suc have h: "urlHistory ?st = map (visit_at actions) [k - 10..<k]"
    and p: "patterns ?st = concat (map (pattern_at actions) [0..<k])" by simp_all
  have "foldl (bf_body actions) \<lparr>patterns = [], urlHistory = []\<rparr> [0..<Suc k] =
        bf_body actions ?st k" by simp
  then show ?case
    using bf_body_patterns [OF h] bf_body_history [OF h] p
    by (simp del: upt_Suc add: upt_Suc_append)
qed

lemma detectBackForthPatterns_concat:
  "detectBackForthPatterns actions =
     concat (map (pattern_at actions) [0..<length actions])"
  by (simp add: detectBackForthPatterns_def bf_loop_inv)

lemma pattern_at_last:
  assumes "p \<in> set (pattern_at actions i)"
  shows "last (bf_indices p) = i"
proof (cases "List.find (\<lambda>j. url (actions ! j) = url (actions ! i)) [i - 10..<i - 1]")
  case None
  with assms show ?thesis by (simp add: pattern_at_def)
next
  case (Some j)
  then have "j \<in> set [i - 10..<i - 1]" by (auto simp: find_Some_iff)
  then have "j \<le> i" by auto
  moreover from assms have "p = \<lparr>bf_indices = [j..<Suc i]\<rparr>"
    unfolding pattern_at_def Some by simp
  ultimately show ?thesis by simp
qed

lemma find_oldest:
  assumes "lo \<le> j" and "j < hi" and "P j" and "\<forall>j'. lo \<le> j' \<and> j' < j \<longrightarrow> \<not> P j'"
  shows "List.find P [lo..<hi] = Some j"
proof -
  have "[lo..<hi] ! (j - lo) = j" using assms(1,2) by simp
  moreover have "\<not> P ([lo..<hi] ! m)" if "m < j - lo" for m
  proof -
    from that assms(2) have "[lo..<hi] ! m = lo + m" by simp
    moreover from that have "lo \<le> lo + m \<and> lo + m < j" by simp
    ultimately show ?thesis using assms(4) by simp
  qed
  moreover have "j - lo < length [lo..<hi]" using assms(1,2) by simp
  ultimately show ?thesis
    unfolding find_Some_iff using assms(3) by (intro exI [of _ "j - lo"]) simp
qed

text \<open>
  Claim C2, as amended. Let action \<open>i\<close> have the URL of an earlier action \<open>j\<close> that is in the
  window of the last ten visits (\<open>i - 10 \<le> j\<close>) and is not the visit just before
  (\<open>j + 1 < i\<close>), and let \<open>j\<close> be the oldest such action. Then the pattern
  \<open>j, j + 1, \<dots>, i\<close> is emitted, and it is the only pattern that ends at \<open>i\<close>: the
  pattern is anchored at the oldest qualifying visit in the window, whatever nearer ones
  there are.
\<close>

theorem backForth_oldest_anchor:
  assumes "i < length actions"
    and "i - 10 \<le> j" and "Suc j < i" and "url (actions ! j) = url (actions ! i)"
    and "\<forall>j'. i - 10 \<le> j' \<and> j' < j \<longrightarrow> url (actions ! j') \<noteq> url (actions ! i)"
  shows "\<lparr>bf_indices = [j..<Suc i]\<rparr> \<in> set (detectBackForthPatterns actions) \<and>
         (\<forall>p \<in> set (detectBackForthPatterns actions).
            last (bf_indices p) = i \<longrightarrow> p = \<lparr>bf_indices = [j..<Suc i]\<rparr>)"
proof -
  have "j < i - 1" using assms(3) by simp
  from find_oldest [of "i - 10" j "i - 1" "\<lambda>j. url (actions ! j) = url (actions ! i)",
        OF assms(2) this assms(4) assms(5)]
  have at: "pattern_at actions i = [\<lparr>bf_indices = [j..<Suc i]\<rparr>]"
    by (simp add: pattern_at_def del: upt_Suc)
  have mem: "\<lparr>bf_indices = [j..<Suc i]\<rparr> \<in> set (detectBackForthPatterns actions)"
  proof -
    have "i \<in> set [0..<length actions]" using assms(1) by simp
    moreover have "\<lparr>bf_indices = [j..<Suc i]\<rparr> \<in> set (pattern_at actions i)"
      unfolding at by simp
    ultimately show ?thesis
      unfolding detectBackForthPatterns_concat set_concat set_map by blast
  qed
  have uniq: "p = \<lparr>bf_indices = [j..<Suc i]\<rparr>"
    if "p \<in> set (detectBackForthPatterns actions)" and "last (bf_indices p) = i" for p
  proof -
    from that(1) obtain i' where "p \<in> set (pattern_at actions i')"
      unfolding detectBackForthPatterns_concat by auto
    moreover from this have "last (bf_indices p) = i'" by (rule pattern_at_last)
    ultimately have "p \<in> set (pattern_at actions i)" using that(2) by simp
    with at show ?thesis by simp
  qed
  from mem uniq show ?thesis by blast
qed

theorem backForth_oldest_anchor_witness:
  "url (ex_backforth ! 1) = url (ex_backforth ! 5) \<and>
   url (ex_backforth ! 0) \<noteq> url (ex_backforth ! 5) \<and>
   \<lparr>bf_indices = [1, 2, 3, 4, 5]\<rparr> \<in> set (detectBackForthPatterns ex_backforth)"
proof -
  have h1: "5 < length ex_backforth" by (simp add: ex_backforth_def)
  have h2: "5 - 10 \<le> (1::nat)" by simp
  have h3: "Suc 1 < (5::nat)" by simp
  have h4: "url (ex_backforth ! 1) = url (ex_backforth ! 5)"
    by (simp add: ex_backforth_def mk_action_def)
  have h0: "url (ex_backforth ! 0) \<noteq> url (ex_backforth ! 5)"
    by (simp add: ex_backforth_def mk_action_def)
  then have h5: "\<forall>j'. 5 - 10 \<le> j' \<and> j' < 1 \<longrightarrow> url (ex_backforth ! j') \<noteq> url (ex_backforth ! 5)"
    by simp
  have "[1..<Suc 5] = [1, 2, 3, 4, 5]" by (simp add: upt_rec)
  with backForth_oldest_anchor [OF h1 h2 h3 h4 h5] h4 h0 show ?thesis by simp
qed

text \<open>
  Claim C2 as stated fails. Action 5 has the URL of the actions 1 and 3, both in the window
  and neither just before it. The nearest is 3, yet the pattern emitted for action 5 starts
  at 1.
\<close>

theorem backForth_nearest_counterexample:
  "url (ex_backforth ! 1) = url (ex_backforth ! 5) \<and>
   url (ex_backforth ! 3) = url (ex_backforth ! 5) \<and>
   detectBackForthPatterns ex_backforth =
     [\<lparr>bf_indices = [1, 2, 3]\<rparr>, \<lparr>bf_indices = [2, 3, 4]\<rparr>,
      \<lparr>bf_indices = [1, 2, 3, 4, 5]\<rparr>]"
  by code_simp

section \<open>Properties of the pre-segmenter\<close>

lemma chain_ok_snoc:
  assumes "chain_ok actions cs start" and "start \<le> e"
  shows "chain_ok actions
           (cs @ [\<lparr>startIndex = start, endIndex = e,
                   pc_actions = slice actions start (Suc e), boundary = b\<rparr>]) (Suc e)"
proof (cases "cs = []")
  case True
  with assms show ?thesis by (simp add: chain_ok_def)
next
  case False
  let ?c = "\<lparr>startIndex = start, endIndex = e,
              pc_actions = slice actions start (Suc e), boundary = b\<rparr>"
  have adj: "startIndex ((cs @ [?c]) ! Suc j) = Suc (endIndex ((cs @ [?c]) ! j))"
    if "Suc j < length (cs @ [?c])" for j
  proof (cases "Suc j < length cs")
    case True
    with assms(1) show ?thesis by (simp add: chain_ok_def nth_append)
  next
    case False
    with that have j: "Suc j = length cs" by simp
    then have "j = length cs - 1" by simp
    then have "cs ! j = last cs" using \<open>cs \<noteq> []\<close> by (simp add: last_conv_nth)
    moreover have "Suc (endIndex (last cs)) = start"
      using assms(1) \<open>cs \<noteq> []\<close> by (simp add: chain_ok_def)
    ultimately show ?thesis using j by (simp add: nth_append)
  qed
  have hd: "startIndex (hd (cs @ [?c])) = 0"
    using assms(1) False by (simp add: chain_ok_def)
  have each: "\<forall>c \<in> set (cs @ [?c]). startIndex c \<le> endIndex c \<and>
                     pc_actions c = slice actions (startIndex c) (Suc (endIndex c))"
    using assms by (auto simp: chain_ok_def)
  show ?thesis
    unfolding chain_ok_def using hd adj each by simp
qed

lemma pc_body_inv:
  assumes inv: "pc_inv hn actions k st" and k: "1 \<le> k"
  shows "pc_inv hn actions (Suc k) (pc_body hn actions st k)"
proof -
  from inv have start: "currentChunkStart st < k"
    and lu: "pc_lastUrl st = url (actions ! (k - 1))"
    and lm: "lastMode st = getActionMode (atype (actions ! (k - 1)))"
    and ch: "chain_ok actions (pc_chunks st) (currentChunkStart st)"
    and ends: "\<forall>c \<in> set (pc_chunks st). Suc (endIndex c) < k"
    and lab: "\<forall>i b. 1 \<le> i \<and> i < k \<longrightarrow>
        ((\<exists>c \<in> set (pc_chunks st). endIndex c = i - 1 \<and> boundary c = b) \<longleftrightarrow>
         decision_at hn actions i = Some b)"
    by (simp_all add: pc_inv_def)
  have dec: "split_decision hn (pc_lastUrl st) (lastMode st) (actions ! k) = decision_at hn actions k"
    by (simp add: decision_at_def lu lm)
  show ?thesis
  proof (cases "decision_at hn actions k")
    case None
    have body: "pc_body hn actions st k =
        st\<lparr>pc_lastUrl := url (actions ! k), lastMode := getActionMode (atype (actions ! k))\<rparr>"
      by (simp add: pc_body_def dec None Let_def)
    have lab': "(\<exists>c \<in> set (pc_chunks st). endIndex c = i - 1 \<and> boundary c = b) \<longleftrightarrow>
         decision_at hn actions i = Some b" if "1 \<le> i" "i < Suc k" for i b
    proof (cases "i < k")
      case True
      with lab that show ?thesis by blast
    next
      case False
      with that have "i = k" by simp
      with None ends show ?thesis by auto
    qed
    show ?thesis
      unfolding pc_inv_def body using start ch ends lab' by auto
  next
    case (Some b0)
    let ?c = "\<lparr>startIndex = currentChunkStart st, endIndex = k - 1,
                pc_actions = slice actions (currentChunkStart st) (Suc (k - 1)), boundary = b0\<rparr>"
    have le: "currentChunkStart st \<le> k - 1" using start by simp
    have body: "pc_body hn actions st k =
        st\<lparr>pc_chunks := pc_chunks st @ [?c], currentChunkStart := Suc (k - 1),
           pc_lastUrl := url (actions ! k), lastMode := getActionMode (atype (actions ! k))\<rparr>"
      using le by (simp add: pc_body_def dec Some createChunk_def Let_def)
    have ch': "chain_ok actions (pc_chunks st @ [?c]) (Suc (k - 1))"
      by (rule chain_ok_snoc [OF ch le])
    have lab': "(\<exists>c \<in> set (pc_chunks st @ [?c]). endIndex c = i - 1 \<and> boundary c = b) \<longleftrightarrow>
         decision_at hn actions i = Some b" if "1 \<le> i" "i < Suc k" for i b
    proof (cases "i < k")
      case True
      then have "i - 1 \<noteq> k - 1" using that by simp
      with lab that True show ?thesis by auto
    next
      case False
      with that have "i = k" by simp
      with Some ends k show ?thesis by auto
    qed
    have ends': "\<forall>c \<in> set (pc_chunks st @ [?c]). Suc (endIndex c) < Suc k"
      using ends k by auto
    show ?thesis
      unfolding pc_inv_def body using k ch' ends' lab' by simp
  qed
qed

lemma pc_loop_inv:
  assumes "1 \<le> k" and "k \<le> length actions"
  shows "pc_inv hn actions k
           (foldl (pc_body hn actions)
              \<lparr>pc_chunks = [], currentChunkStart = 0, pc_lastUrl = url (actions ! 0),
               lastMode = getActionMode (atype (actions ! 0))\<rparr> [1..<k])"
  using assms
proof (induction k rule: nat_induct_at_least)
  case base
  show ?case by (simp add: pc_inv_def chain_ok_def)
next
  case (Suc n)
  then have "pc_inv hn actions n
           (foldl (pc_body hn actions)
              \<lparr>pc_chunks = [], currentChunkStart = 0, pc_lastUrl = url (actions ! 0),
               lastMode = getActionMode (atype (actions ! 0))\<rparr> [1..<n])" by simp
  from pc_body_inv [OF this Suc.hyps] Suc.hyps show ?case by simp
qed

lemma preChunk_final:
  assumes "actions \<noteq> []"
  shows "\<exists>st. pc_inv hn actions (length actions) st \<and>
           preChunkActions hn actions =
             pc_chunks st @ [\<lparr>startIndex = currentChunkStart st, endIndex = length actions - 1,
                pc_actions = slice actions (currentChunkStart st) (Suc (length actions - 1)),
                boundary = Start\<rparr>]"
proof -
  let ?st = "foldl (pc_body hn actions)
              \<lparr>pc_chunks = [], currentChunkStart = 0, pc_lastUrl = url (actions ! 0),
               lastMode = getActionMode (atype (actions ! 0))\<rparr> [1..<length actions]"
  have n: "1 \<le> length actions" using assms by (cases actions) simp_all
  have inv: "pc_inv hn actions (length actions) ?st"
    by (rule pc_loop_inv [OF n]) simp
  then have "currentChunkStart ?st < length actions" by (simp add: pc_inv_def)
  then have "preChunkActions hn actions =
             pc_chunks ?st @ [\<lparr>startIndex = currentChunkStart ?st, endIndex = length actions - 1,
                pc_actions = slice actions (currentChunkStart ?st) (Suc (length actions - 1)),
                boundary = Start\<rparr>]"
    using assms by (simp add: preChunkActions_def createChunk_def Let_def)
  with inv show ?thesis by blast
qed

lemma slice_nth:
  "e < length xs \<Longrightarrow> s \<le> e \<Longrightarrow> slice xs s (Suc e) = map (\<lambda>k. xs ! k) [s..<Suc e]"
proof -
  have "take (Suc e - s) (drop s xs) = map (\<lambda>k. xs ! k) [s..<Suc e]"
    if "e < length xs" "s \<le> e"
  proof (rule nth_equalityI)
    show "length (take (Suc e - s) (drop s xs)) = length (map (\<lambda>k. xs ! k) [s..<Suc e])"
      using that by simp
  next
    fix i assume "i < length (take (Suc e - s) (drop s xs))"
    then have i: "i < Suc e - s" by simp
    then have "[s..<Suc e] ! i = s + i" by (intro nth_upt) simp
    with i that show "take (Suc e - s) (drop s xs) ! i = map (\<lambda>k. xs ! k) [s..<Suc e] ! i"
      by (simp del: upt_Suc)
  qed
  then show "e < length xs \<Longrightarrow> s \<le> e \<Longrightarrow> slice xs s (Suc e) = map (\<lambda>k. xs ! k) [s..<Suc e]"
    by (simp add: slice_def del: upt_Suc)
qed

text \<open>
  Claim C1. For a non-empty list of actions the chunks of \<open>preChunkActions\<close> are contiguous,
  cover the whole list and do not overlap: there is a first chunk and it starts at index 0,
  the last chunk ends at the last index, each chunk starts just after the one before it
  ends, no chunk is empty, and the actions of a chunk are those of the list from its start
  index to its end index.
\<close>

theorem preChunk_contiguous_cover:
  assumes "actions \<noteq> []"
  shows "preChunkActions hostname actions \<noteq> [] \<and>
         startIndex (hd (preChunkActions hostname actions)) = 0 \<and>
         endIndex (last (preChunkActions hostname actions)) = length actions - 1 \<and>
         (\<forall>i. Suc i < length (preChunkActions hostname actions) \<longrightarrow>
              startIndex (preChunkActions hostname actions ! Suc i) =
              endIndex (preChunkActions hostname actions ! i) + 1) \<and>
         (\<forall>c \<in> set (preChunkActions hostname actions).
              startIndex c \<le> endIndex c \<and> endIndex c < length actions \<and>
              pc_actions c = map (\<lambda>k. actions ! k) [startIndex c..<endIndex c + 1])"
proof -
  from preChunk_final [OF assms, of hostname] obtain st where
    inv: "pc_inv hostname actions (length actions) st" and
    eq: "preChunkActions hostname actions =
           pc_chunks st @ [\<lparr>startIndex = currentChunkStart st, endIndex = length actions - 1,
              pc_actions = slice actions (currentChunkStart st) (Suc (length actions - 1)),
              boundary = Start\<rparr>]"
    by blast
  let ?cs = "preChunkActions hostname actions"
  have n: "0 < length actions" using assms by simp
  from inv have le: "currentChunkStart st \<le> length actions - 1"
    and ch: "chain_ok actions (pc_chunks st) (currentChunkStart st)"
    and ends: "\<forall>c \<in> set (pc_chunks st). Suc (endIndex c) < length actions"
    by (auto simp: pc_inv_def)
  have full: "chain_ok actions ?cs (Suc (length actions - 1))"
    unfolding eq by (rule chain_ok_snoc [OF ch le])
  have ne: "?cs \<noteq> []" by (simp add: eq)
  have bound: "\<forall>c \<in> set ?cs. endIndex c < length actions"
    using ends n by (auto simp: eq)
  have each: "startIndex c \<le> endIndex c \<and> endIndex c < length actions \<and>
       pc_actions c = map (\<lambda>k. actions ! k) [startIndex c..<endIndex c + 1]"
    if "c \<in> set ?cs" for c
  proof -
    from full that have a: "startIndex c \<le> endIndex c"
      and b: "pc_actions c = slice actions (startIndex c) (Suc (endIndex c))"
      by (simp_all add: chain_ok_def)
    from bound that have c: "endIndex c < length actions" by blast
    from slice_nth [OF c a] a b c show ?thesis by simp
  qed
  from full ne have "startIndex (hd ?cs) = 0"
    and "endIndex (last ?cs) = length actions - 1"
    and "\<forall>i. Suc i < length ?cs \<longrightarrow> startIndex (?cs ! Suc i) = endIndex (?cs ! i) + 1"
    by (simp_all add: chain_ok_def)
  with ne each show ?thesis by blast
qed

theorem preChunk_contiguous_cover_witness:
  "ex_session \<noteq> [] \<and>
   startIndex (hd (preChunkActions ex_hostname ex_session)) = 0 \<and>
   endIndex (last (preChunkActions ex_hostname ex_session)) = 4"
  using preChunk_contiguous_cover [of ex_session ex_hostname]
  by (simp add: ex_session_def)

text \<open>
  Claim C6, as amended. Let \<open>1 \<le> i < length actions\<close>, and let \<open>idle\<close> be the idle time
  before action \<open>i\<close>, 0 when absent. A chunk closed with label \<open>b\<close> before \<open>i\<close> is a chunk
  that ends at \<open>i - 1\<close>, and all such chunks carry \<open>b\<close>.
  \<^enum> If \<open>idle \<ge> 15000\<close>, a chunk is closed before \<open>i\<close> with \<open>long_pause\<close>.
  \<^enum> Otherwise, if the URLs of the actions \<open>i - 1\<close> and \<open>i\<close> differ as texts, and one of them
    does not parse or their host names differ, a chunk is closed with \<open>url_change\<close>.
  \<^enum> Otherwise, if the two URLs are the same text and the modes of the two actions differ,
    a chunk is closed with \<open>mode_change\<close>.
  \<^enum> If \<open>idle < 15000\<close>, the modes of the two actions agree, and the two URLs are the same
    text or both parse to the same host name, no chunk ends at \<open>i - 1\<close>.

  Left open is the case \<open>idle < 15000\<close> where the two URLs differ as texts, both parse to
  the same host name, and the modes differ.
\<close>

theorem preChunk_boundary_rules:
  assumes "1 \<le> i" and "i < length actions"
  shows "let cs = preChunkActions hostname actions;
             prev = actions ! (i - 1);
             cur = actions ! i;
             idle = (case idleTimeBefore (metadata cur) of None \<Rightarrow> 0 | Some t \<Rightarrow> t);
             closed_with = (\<lambda>b. (\<exists>c \<in> set cs. endIndex c = i - 1) \<and>
                                 (\<forall>c \<in> set cs. endIndex c = i - 1 \<longrightarrow> boundary c = b))
         in (idle \<ge> 15000 \<longrightarrow> closed_with Long_pause) \<and>
            (idle < 15000 \<and> url cur \<noteq> url prev \<and>
               (hostname (url prev) = None \<or> hostname (url cur) = None \<or>
                hostname (url prev) \<noteq> hostname (url cur)) \<longrightarrow> closed_with Url_change) \<and>
            (idle < 15000 \<and> url cur = url prev \<and>
               getActionMode (atype cur) \<noteq> getActionMode (atype prev) \<longrightarrow>
               closed_with Mode_change) \<and>
            (idle < 15000 \<and> getActionMode (atype cur) = getActionMode (atype prev) \<and>
               (url cur = url prev \<or>
                hostname (url prev) \<noteq> None \<and> hostname (url cur) = hostname (url prev)) \<longrightarrow>
               \<not> (\<exists>c \<in> set cs. endIndex c = i - 1))"
proof -
  have ne: "actions \<noteq> []" using assms by auto
  from preChunk_final [OF ne, of hostname] obtain st where
    inv: "pc_inv hostname actions (length actions) st" and
    eq: "preChunkActions hostname actions =
           pc_chunks st @ [\<lparr>startIndex = currentChunkStart st, endIndex = length actions - 1,
              pc_actions = slice actions (currentChunkStart st) (Suc (length actions - 1)),
              boundary = Start\<rparr>]"
    by blast
  let ?cs = "preChunkActions hostname actions"
  have neq: "length actions - 1 \<noteq> i - 1" using assms by simp
  from inv assms have lab: "(\<exists>c \<in> set (pc_chunks st). endIndex c = i - 1 \<and> boundary c = b) \<longleftrightarrow>
         decision_at hostname actions i = Some b" for b
    by (simp add: pc_inv_def)
  have lab': "(\<exists>c \<in> set ?cs. endIndex c = i - 1 \<and> boundary c = b) \<longleftrightarrow>
         decision_at hostname actions i = Some b" for b
    using lab [of b] neq by (auto simp: eq)
  have some: "(\<exists>c \<in> set ?cs. endIndex c = i - 1) \<and>
              (\<forall>c \<in> set ?cs. endIndex c = i - 1 \<longrightarrow> boundary c = b)"
    if "decision_at hostname actions i = Some b" for b
  proof -
    from that lab' [of b] have ex: "\<exists>c \<in> set ?cs. endIndex c = i - 1" by blast
    have "boundary c = b" if c: "c \<in> set ?cs" "endIndex c = i - 1" for c
    proof -
      from c lab' [of "boundary c"] have "decision_at hostname actions i = Some (boundary c)"
        by blast
      with \<open>decision_at hostname actions i = Some b\<close> show ?thesis by simp
    qed
    with ex show ?thesis by blast
  qed
  have none: "\<not> (\<exists>c \<in> set ?cs. endIndex c = i - 1)"
    if "decision_at hostname actions i = None"
  proof
    assume "\<exists>c \<in> set ?cs. endIndex c = i - 1"
    then obtain c where "c \<in> set ?cs" "endIndex c = i - 1" by blast
    with lab' [of "boundary c"] have "decision_at hostname actions i = Some (boundary c)"
      by blast
    with that show False by simp
  qed
  let ?idle = "case idleTimeBefore (metadata (actions ! i)) of None \<Rightarrow> 0 | Some t \<Rightarrow> t"
  let ?closed = "\<lambda>b. (\<exists>c \<in> set ?cs. endIndex c = i - 1) \<and>
                      (\<forall>c \<in> set ?cs. endIndex c = i - 1 \<longrightarrow> boundary c = b)"
  have r1: "?idle \<ge> 15000 \<longrightarrow> ?closed Long_pause"
    by (rule impI, rule some)
       (simp add: decision_at_def split_decision_def CHUNK_PAUSE_THRESHOLD_MS_def)
  have r2: "?idle < 15000 \<and> url (actions ! i) \<noteq> url (actions ! (i - 1)) \<and>
               (hostname (url (actions ! (i - 1))) = None \<or> hostname (url (actions ! i)) = None \<or>
                hostname (url (actions ! (i - 1))) \<noteq> hostname (url (actions ! i)))
            \<longrightarrow> ?closed Url_change"
    by (rule impI, rule some)
       (auto simp: decision_at_def split_decision_def CHUNK_PAUSE_THRESHOLD_MS_def
             split: option.splits)
  have r3: "?idle < 15000 \<and> url (actions ! i) = url (actions ! (i - 1)) \<and>
               getActionMode (atype (actions ! i)) \<noteq> getActionMode (atype (actions ! (i - 1)))
            \<longrightarrow> ?closed Mode_change"
    by (rule impI, rule some)
       (simp add: decision_at_def split_decision_def CHUNK_PAUSE_THRESHOLD_MS_def)
  have r4: "?idle < 15000 \<and>
               getActionMode (atype (actions ! i)) = getActionMode (atype (actions ! (i - 1))) \<and>
               (url (actions ! i) = url (actions ! (i - 1)) \<or>
                hostname (url (actions ! (i - 1))) \<noteq> None \<and>
                hostname (url (actions ! i)) = hostname (url (actions ! (i - 1))))
            \<longrightarrow> \<not> (\<exists>c \<in> set ?cs. endIndex c = i - 1)"
    by (rule impI, rule none)
       (auto simp: decision_at_def split_decision_def CHUNK_PAUSE_THRESHOLD_MS_def
             split: option.splits)
  show ?thesis
    unfolding Let_def by (rule conjI [OF r1 conjI [OF r2 conjI [OF r3 r4]]])
qed

theorem preChunk_boundary_rules_witness:
  "(\<exists>c \<in> set (preChunkActions ex_hostname ex_session).
      endIndex c = 0 \<and> boundary c = Long_pause) \<and>
   (\<exists>c \<in> set (preChunkActions ex_hostname ex_session).
      endIndex c = 1 \<and> boundary c = Url_change) \<and>
   (\<exists>c \<in> set (preChunkActions ex_hostname ex_session).
      endIndex c = 2 \<and> boundary c = Mode_change) \<and>
   \<not> (\<exists>c \<in> set (preChunkActions ex_hostname ex_session). endIndex c = 3) \<and>
   \<not> (\<exists>c \<in> set (preChunkActions ex_hostname ex_two_pages). endIndex c = 0)"
proof -
  have len: "length ex_session = 5" by (simp add: ex_session_def)
  have r1: "(\<exists>c \<in> set (preChunkActions ex_hostname ex_session). endIndex c = 0) \<and>
    (\<forall>c \<in> set (preChunkActions ex_hostname ex_session).
        endIndex c = 0 \<longrightarrow> boundary c = Long_pause)"
    using preChunk_boundary_rules [of 1 ex_session ex_hostname]
    by (simp add: len Let_def) (simp add: ex_session_def mk_action_def)
  have r2: "(\<exists>c \<in> set (preChunkActions ex_hostname ex_session). endIndex c = 1) \<and>
    (\<forall>c \<in> set (preChunkActions ex_hostname ex_session).
        endIndex c = 1 \<longrightarrow> boundary c = Url_change)"
    using preChunk_boundary_rules [of 2 ex_session ex_hostname]
    by (simp add: len Let_def) (simp add: ex_session_def mk_action_def ex_hostname_def)
  have r3: "(\<exists>c \<in> set (preChunkActions ex_hostname ex_session). endIndex c = 2) \<and>
    (\<forall>c \<in> set (preChunkActions ex_hostname ex_session).
        endIndex c = 2 \<longrightarrow> boundary c = Mode_change)"
    using preChunk_boundary_rules [of 3 ex_session ex_hostname]
    by (simp add: len Let_def) (simp add: ex_session_def mk_action_def ex_hostname_def)
  have r4: "\<not> (\<exists>c \<in> set (preChunkActions ex_hostname ex_session). endIndex c = 3)"
    using preChunk_boundary_rules [of 4 ex_session ex_hostname]
    by (simp add: len Let_def) (simp add: ex_session_def mk_action_def ex_hostname_def)
  have r5: "\<not> (\<exists>c \<in> set (preChunkActions ex_hostname ex_two_pages). endIndex c = 0)"
    using preChunk_boundary_rules [of 1 ex_two_pages ex_hostname]
    by (simp add: Let_def ex_two_pages_def mk_action_def ex_hostname_def)
  from r1 r2 r3 r4 r5 show ?thesis by blast
qed

text \<open>
  Claim C6 as stated fails. Neither URL of the two actions parses, and there is no long
  pause, so rule (2) of the claim asks for a \<open>url_change\<close> boundary before index 1. The two
  URLs are the same text, and the source tests the host names only when they differ: one
  chunk holds both actions.
\<close>

theorem preChunk_boundary_rules_counterexample:
  "idleTimeBefore (metadata (ex_unparsable ! 1)) = None \<and>
   ex_hostname (url (ex_unparsable ! 0)) = None \<and>
   ex_hostname (url (ex_unparsable ! 1)) = None \<and>
   preChunkActions ex_hostname ex_unparsable =
     [\<lparr>startIndex = 0, endIndex = 1, pc_actions = ex_unparsable, boundary = Start\<rparr>]"
  by code_simp

text \<open>
  The case that the rules above leave open: the URL text changes within one host and the
  mode changes too. The mode test is in the \<open>else\<close> branch of the URL test and is not
  reached, so the change from a click to a copy closes no chunk here.
\<close>

lemma preChunk_same_host_example:
  "preChunkActions ex_hostname ex_same_host =
     [\<lparr>startIndex = 0, endIndex = 1, pc_actions = ex_same_host, boundary = Start\<rparr>]"
  by code_simp

section \<open>Properties of the stage contracts\<close>

subsection \<open>First occurrences\<close>

lemma after_first_at:
  assumes "\<forall>p < length x. \<not> prefix pat (drop p (x @ pat @ y))"
  shows "after_first pat (x @ pat @ y) = Some y"
  using assms
proof (induction x)
  case Nil
  show ?case
  proof (cases "pat @ y")
    case Nil
    then show ?thesis by simp
  next
    case (Cons c cs)
    have "prefix pat (pat @ y)" by simp
    then have "after_first pat (pat @ y) = Some (drop (length pat) (pat @ y))"
      unfolding Cons by simp
    then show ?thesis by simp
  qed
next
  case (Cons a x)
  from Cons.prems have "\<not> prefix pat (drop 0 ((a # x) @ pat @ y))" by blast
  then have np: "\<not> prefix pat (a # x @ pat @ y)" by simp
  have "\<forall>p < length x. \<not> prefix pat (drop p (x @ pat @ y))"
  proof (intro allI impI)
    fix p assume "p < length x"
    then have "Suc p < length (a # x)" by simp
    with Cons.prems have "\<not> prefix pat (drop (Suc p) ((a # x) @ pat @ y))" by blast
    then show "\<not> prefix pat (drop p (x @ pat @ y))" by simp
  qed
  from Cons.IH [OF this] np show ?case by simp
qed

lemma after_first_none:
  assumes "pat \<noteq> []" and "\<forall>p < length t. \<not> prefix pat (drop p t)"
  shows "after_first pat t = None"
  using assms(2)
proof (induction t)
  case Nil
  with assms(1) show ?case by simp
next
  case (Cons a t)
  from Cons.prems have "\<not> prefix pat (drop 0 (a # t))" by blast
  then have np: "\<not> prefix pat (a # t)" by simp
  have "\<forall>p < length t. \<not> prefix pat (drop p t)"
  proof (intro allI impI)
    fix p assume "p < length t"
    then have "Suc p < length (a # t)" by simp
    with Cons.prems have "\<not> prefix pat (drop (Suc p) (a # t))" by blast
    then show "\<not> prefix pat (drop p t)" by simp
  qed
  from Cons.IH [OF this] np show ?case by simp
qed

lemma lazy_until_at:
  assumes "\<forall>p < length x. \<not> list_ex (\<lambda>q. prefix q (drop p (x @ z))) stops"
    and "z = [] \<or> list_ex (\<lambda>q. prefix q z) stops"
  shows "lazy_until stops (x @ z) = x"
  using assms(1)
proof (induction x)
  case Nil
  from assms(2) show ?case by (cases z) auto
next
  case (Cons a x)
  from Cons.prems have "\<not> list_ex (\<lambda>q. prefix q (drop 0 ((a # x) @ z))) stops" by blast
  then have np: "\<not> list_ex (\<lambda>q. prefix q (a # x @ z)) stops" by simp
  have "\<forall>p < length x. \<not> list_ex (\<lambda>q. prefix q (drop p (x @ z))) stops"
  proof (intro allI impI)
    fix p assume "p < length x"
    then have "Suc p < length (a # x)" by simp
    with Cons.prems have "\<not> list_ex (\<lambda>q. prefix q (drop (Suc p) ((a # x) @ z))) stops" by blast
    then show "\<not> list_ex (\<lambda>q. prefix q (drop p (x @ z))) stops" by simp
  qed
  from Cons.IH [OF this] np show ?case by simp
qed

lemma sublist_drop: "sublist h (drop p x) \<Longrightarrow> sublist h x"
  by (metis append_take_drop_id sublist_append)

lemma no_stop_before:
  assumes n: "n \<notin> set h" and sub: "\<not> sublist (n # h) x" and p: "p < length x"
  shows "\<not> prefix (n # h) (drop p (x @ n # z))"
proof
  let ?u = "drop p x"
  assume "prefix (n # h) (drop p (x @ n # z))"
  then have pre: "prefix (n # h) (?u @ n # z)" using p by simp
  have nu: "\<not> sublist (n # h) ?u" using sub sublist_drop by blast
  from p obtain a u' where u: "?u = a # u'" by (cases ?u) simp_all
  from pre consider (inside) "prefix (n # h) ?u"
    | (over) us where "n # h = ?u @ us" "prefix us (n # z)"
    unfolding prefix_append by blast
  then show False
  proof cases
    case inside
    with nu show False by blast
  next
    case over
    show False
    proof (cases us)
      case Nil
      with over(1) nu show False by simp
    next
      case (Cons w ws)
      with over(2) have "w = n" by simp
      with over(1) Cons u have "h = u' @ n # ws" by simp
      with n show False by simp
    qed
  qed
qed

lemma no_line_end_before:
  assumes n: "n \<notin> set h" and sub: "\<not> sublist (h @ [n]) (x @ [n])" and p: "p \<le> length x"
  shows "\<not> prefix (h @ [n]) (drop p (x @ n # z))"
proof
  let ?u = "drop p x"
  assume "prefix (h @ [n]) (drop p (x @ n # z))"
  then have pre: "prefix (h @ [n]) (?u @ n # z)" using p by simp
  have nx: "\<not> sublist (h @ [n]) x" using sub by (auto simp: sublist_append)
  have nu: "\<not> sublist (h @ [n]) ?u" using nx sublist_drop by blast
  from pre consider (inside) "prefix (h @ [n]) ?u"
    | (over) us where "h @ [n] = ?u @ us" "prefix us (n # z)"
    unfolding prefix_append by blast
  then show False
  proof cases
    case inside
    with nu show False by blast
  next
    case over
    show False
    proof (cases us)
      case Nil
      with over(1) nu show False by simp
    next
      case (Cons w ws)
      with over(2) have w: "w = n" by simp
      show False
      proof (cases ws rule: rev_cases)
        case Nil
        with over(1) Cons w have "h = ?u" by simp
        then have "h @ [n] = drop p (x @ [n])" using p by simp
        then have "suffix (h @ [n]) (x @ [n])" by (metis suffix_drop)
        with sub show False by blast
      next
        case (snoc vs v)
        with over(1) Cons w have "h = ?u @ n # vs" by simp
        with n show False by simp
      qed
    qed
  qed
qed

lemma sublist_line_end_across:
  assumes n: "n \<notin> set h" and sub: "sublist (h @ [n]) (a @ n # b)"
  shows "sublist (h @ [n]) (a @ [n]) \<or> sublist (h @ [n]) b"
proof -
  from sub consider "sublist (h @ [n]) a" | "sublist (h @ [n]) (n # b)"
    | xs1 xs2 where "h @ [n] = xs1 @ xs2" "suffix xs1 a" "prefix xs2 (n # b)"
    unfolding sublist_append by blast
  then show ?thesis
  proof cases
    case 1
    then show ?thesis by (simp add: sublist_append)
  next
    case 2
    then consider "prefix (h @ [n]) (n # b)" | "sublist (h @ [n]) b"
      unfolding sublist_Cons_right by blast
    then show ?thesis
    proof cases
      case 1
      show ?thesis
      proof (cases h)
        case Nil
        then show ?thesis by simp
      next
        case (Cons c cs)
        with 1 n show ?thesis by simp
      qed
    next
      case 2
      then show ?thesis by simp
    qed
  next
    case 3
    show ?thesis
    proof (cases xs2)
      case Nil
      with 3 have "suffix (h @ [n]) a" by simp
      then have "sublist (h @ [n]) a" by (rule suffix_imp_sublist)
    then show ?thesis by (simp add: sublist_append)
    next
      case (Cons w ws)
      with 3(3) have w: "w = n" by simp
      show ?thesis
      proof (cases ws rule: rev_cases)
        case Nil
        with 3(1) Cons w have "h = xs1" by simp
        with 3(2) have "suffix (h @ [n]) (a @ [n])" by simp
        then show ?thesis by (metis suffix_imp_sublist)
      next
        case (snoc vs v)
        with 3(1) Cons w have "h = xs1 @ n # vs" by simp
        with n show ?thesis by simp
      qed
    qed
  qed
qed

text \<open>
  A text \<open>h\<close> followed by a line feed occurs in \<open>b\<close> followed by a line feed exactly when
  \<open>h\<close> stands in \<open>b\<close> directly before a line feed or at the very end of \<open>b\<close>.
\<close>

lemma line_end_iff:
  "sublist (h @ [n]) (b @ [n]) \<longleftrightarrow> sublist (h @ [n]) b \<or> suffix h b"
proof
  assume "sublist (h @ [n]) (b @ [n])"
  then consider "sublist (h @ [n]) b" | "sublist (h @ [n]) [n]"
    | xs1 xs2 where "h @ [n] = xs1 @ xs2" "suffix xs1 b" "prefix xs2 [n]"
    unfolding sublist_append by blast
  then show "sublist (h @ [n]) b \<or> suffix h b"
  proof cases
    case 1
    then show ?thesis by simp
  next
    case 2
    then have "length (h @ [n]) \<le> length [n]" by (rule sublist_length_le)
    then have "h = []" by simp
    then show ?thesis by simp
  next
    case 3
    show ?thesis
    proof (cases xs2)
      case Nil
      with 3 have "suffix (h @ [n]) b" by simp
      then show ?thesis by (simp add: suffix_imp_sublist)
    next
      case (Cons w ws)
      with 3(3) have "xs2 = [n]" by simp
      with 3(1) have "h = xs1" by simp
      with 3(2) show ?thesis by simp
    qed
  qed
next
  assume "sublist (h @ [n]) b \<or> suffix h b"
  then show "sublist (h @ [n]) (b @ [n])"
  proof
    assume "sublist (h @ [n]) b"
    then show ?thesis by (simp add: sublist_append)
  next
    assume "suffix h b"
    then have "suffix (h @ [n]) (b @ [n])" by simp
    then show ?thesis by (rule suffix_imp_sublist)
  qed
qed

text \<open>
  A heading line is found at its first occurrence: after a text in which the heading is
  nowhere followed by a line feed, and which does not end with it.
\<close>

lemma heading_line_found:
  assumes n: "n \<notin> set h" and x: "\<not> sublist (h @ [n]) (x @ [n])"
  shows "after_first (h @ [n]) (x @ [n] @ h @ [n] @ y) = Some y"
proof -
  have "after_first (h @ [n]) ((x @ [n]) @ (h @ [n]) @ y) = Some y"
  proof (rule after_first_at, intro allI impI)
    fix p assume "p < length (x @ [n])"
    then have p: "p \<le> length x" by simp
    from no_line_end_before [OF n x p, of "(h @ [n]) @ y"]
    show "\<not> prefix (h @ [n]) (drop p ((x @ [n]) @ (h @ [n]) @ y))" by simp
  qed
  then show ?thesis by simp
qed

text \<open>A heading at the very end, with no line feed after it, is not found.\<close>

lemma heading_line_missing:
  assumes n: "n \<notin> set h" and x: "\<not> sublist (h @ [n]) (x @ [n])"
  shows "after_first (h @ [n]) (x @ [n] @ h) = None"
proof (rule after_first_none, simp, intro allI impI)
  fix p assume "p < length (x @ [n] @ h)"
  show "\<not> prefix (h @ [n]) (drop p (x @ [n] @ h))"
  proof (cases "p \<le> length x")
    case True
    from no_line_end_before [OF n x True, of h] show ?thesis by simp
  next
    case False
    then have "length (drop p (x @ [n] @ h)) < length (h @ [n])" by simp
    then show ?thesis using prefix_length_le not_less by blast
  qed
qed

subsection \<open>Trimming\<close>

lemma trim_alt: "trim s = trim_end (dropWhile is_space s)"
  by (simp add: trim_def trim_end_def)

lemma trim_end_all_space: "(\<forall>c \<in> set t. is_space c) \<Longrightarrow> trim_end t = []"
  by (simp add: trim_end_def dropWhile_eq_Nil_conv)

lemma trim_end_append:
  assumes "\<exists>c \<in> set t. \<not> is_space c"
  shows "trim_end (h @ t) = h @ trim_end t"
proof -
  from assms obtain c where "c \<in> set (rev t)" "\<not> is_space c" by auto
  then have "dropWhile is_space (rev t @ rev h) = dropWhile is_space (rev t) @ rev h"
    by (rule dropWhile_append1)
  then show ?thesis by (simp add: trim_end_def)
qed

lemma trim_end_last:
  assumes "h \<noteq> []" and "\<not> is_space (last h)"
  shows "trim_end h = h"
proof -
  have "trim_end (butlast h @ [last h]) = butlast h @ [last h]"
    using assms(2) by (simp add: trim_end_def)
  then show ?thesis using assms(1) by simp
qed

lemma trim_end_append_last:
  assumes "h \<noteq> []" and "\<not> is_space (last h)"
  shows "trim_end (h @ t) = h @ trim_end t"
proof (cases "\<forall>c \<in> set t. is_space c")
  case True
  then have "dropWhile is_space (rev t @ rev h) = dropWhile is_space (rev h)"
    by (intro dropWhile_append2) simp
  then have "trim_end (h @ t) = trim_end h" by (simp add: trim_end_def)
  with True assms show ?thesis by (simp add: trim_end_last trim_end_all_space)
next
  case False
  then show ?thesis by (intro trim_end_append) simp
qed

lemma trim_core:
  assumes "h \<noteq> []" and "\<not> is_space (hd h)" and "\<not> is_space (last h)"
  shows "trim (h @ t) = h @ trim_end t"
proof -
  from assms(1,2) have "dropWhile is_space (h @ t) = h @ t" by (cases h) simp_all
  then show ?thesis by (simp add: trim_alt trim_end_append_last assms)
qed

lemma trim_end_Cons:
  assumes "\<not> is_space c"
  shows "trim_end (c # t) = c # trim_end t"
  using trim_end_append_last [of "[c]" t] assms by simp

lemma trim_end_idem: "trim_end (trim_end t) = trim_end t"
  by (simp add: trim_end_def)

lemma dropWhile_takeWhile_append:
  "dropWhile P (takeWhile P k @ r) = dropWhile P r"
  by (induction k) simp_all

lemma trim_end_takeWhile:
  assumes "\<exists>c \<in> set (dropWhile is_space k). \<not> is_space c"
  shows "trim_end k = takeWhile is_space k @ trim_end (dropWhile is_space k)"
  using trim_end_append [OF assms, of "takeWhile is_space k"] by simp

lemma trim_trim_end: "trim (trim_end k) = trim k"
proof (cases "dropWhile is_space k")
  case Nil
  then have "\<forall>c \<in> set k. is_space c" by (simp add: dropWhile_eq_Nil_conv)
  then have "trim_end k = []" by (rule trim_end_all_space)
  with Nil have "trim (trim_end k) = trim []" and "trim k = trim_end []"
    by (simp_all only: trim_alt)
  moreover have "trim [] = []" by (simp add: trim_def)
  moreover have "trim_end [] = []" by (simp add: trim_end_def)
  ultimately show ?thesis by (simp only:)
next
  case (Cons c k'')
  have "dropWhile is_space k \<noteq> []" unfolding Cons by simp
  then have "\<not> is_space (hd (dropWhile is_space k))" by (rule hd_dropWhile)
  then have c: "\<not> is_space c" unfolding Cons by simp
  then have ex: "\<exists>c \<in> set (dropWhile is_space k). \<not> is_space c"
    unfolding Cons by auto
  have hd: "trim_end (c # k'') = c # trim_end k''" using c by (rule trim_end_Cons)
  have "dropWhile is_space (trim_end k) = dropWhile is_space (trim_end (c # k''))"
    unfolding trim_end_takeWhile [OF ex] dropWhile_takeWhile_append Cons ..
  also have "\<dots> = trim_end (c # k'')" unfolding hd using c by simp
  finally have "trim (trim_end k) = trim_end (trim_end (c # k''))"
    by (simp only: trim_alt)
  also have "\<dots> = trim k"
    unfolding trim_end_idem by (simp only: trim_alt Cons)
  finally show ?thesis .
qed

lemma lf_space: "is_space 0x0A"
  by (simp add: is_space_def)

subsection \<open>The three sections of a rendered document\<close>

lemma lf_not_in_headings:
  "0x0A \<notin> set (lit ''# Instructions'')" "0x0A \<notin> set (lit ''# Know-How'')"
  by (simp_all add: lit_def)

lemma heading_lines_apart:
  "\<not> sublist (lit ''# Instructions'' @ LF) (lit ''# Summary'' @ LF)"
  "\<not> sublist (lit ''# Know-How'' @ LF) (lit ''# Summary'' @ LF)"
  "\<not> sublist (lit ''# Know-How'' @ LF) (lit ''# Instructions'' @ LF)"
  by (simp_all add: lit_def sublist_Cons_right)

lemma heading_ends:
  "lit ''# Summary'' \<noteq> []" "\<not> is_space (hd (lit ''# Summary''))"
  "lit ''# Know-How'' \<noteq> []" "\<not> is_space (last (lit ''# Know-How''))"
  by (simp_all add: lit_def is_space_def)

text \<open>The Summary group: everything up to the Instructions heading.\<close>

lemma summary_group:
  assumes s1: "\<not> sublist (LF @ lit ''# Instructions'') s"
    and s2: "\<not> sublist (LF @ lit ''# Know-How'') s"
  shows "lazy_until [LF @ lit ''# Instructions'', LF @ lit ''# Know-How'']
           (s @ LF @ lit ''# Instructions'' @ r) = s"
proof -
  have "lazy_until [LF @ lit ''# Instructions'', LF @ lit ''# Know-How'']
           (s @ (0x0A # lit ''# Instructions'' @ r)) = s"
  proof (rule lazy_until_at)
    show "\<forall>p<length s.
            \<not> list_ex (\<lambda>q. prefix q (drop p (s @ 0x0A # lit ''# Instructions'' @ r)))
                [LF @ lit ''# Instructions'', LF @ lit ''# Know-How'']"
    proof (intro allI impI)
      fix p assume p: "p < length s"
      from s1 have s1': "\<not> sublist (0x0A # lit ''# Instructions'') s" by simp
      from s2 have s2': "\<not> sublist (0x0A # lit ''# Know-How'') s" by simp
      from no_stop_before [OF lf_not_in_headings(1) s1' p, of "lit ''# Instructions'' @ r"]
           no_stop_before [OF lf_not_in_headings(2) s2' p, of "lit ''# Instructions'' @ r"]
      show "\<not> list_ex (\<lambda>q. prefix q (drop p (s @ 0x0A # lit ''# Instructions'' @ r)))
                [LF @ lit ''# Instructions'', LF @ lit ''# Know-How'']"
        by simp
    qed
  next
    show "0x0A # lit ''# Instructions'' @ r = [] \<or>
          list_ex (\<lambda>q. prefix q (0x0A # lit ''# Instructions'' @ r))
            [LF @ lit ''# Instructions'', LF @ lit ''# Know-How'']"
      by simp
  qed
  then show ?thesis by simp
qed

text \<open>The Instructions group: everything up to the Know-How heading.\<close>

lemma instructions_group:
  assumes i1: "\<not> sublist (LF @ lit ''# Know-How'') i"
  shows "lazy_until [LF @ lit ''# Know-How''] (i @ LF @ lit ''# Know-How'' @ r) = i"
proof -
  have "lazy_until [LF @ lit ''# Know-How''] (i @ (0x0A # lit ''# Know-How'' @ r)) = i"
  proof (rule lazy_until_at)
    show "\<forall>p<length i.
            \<not> list_ex (\<lambda>q. prefix q (drop p (i @ 0x0A # lit ''# Know-How'' @ r)))
                [LF @ lit ''# Know-How'']"
    proof (intro allI impI)
      fix p assume p: "p < length i"
      from i1 have i1': "\<not> sublist (0x0A # lit ''# Know-How'') i" by simp
      from no_stop_before [OF lf_not_in_headings(2) i1' p, of "lit ''# Know-How'' @ r"]
      show "\<not> list_ex (\<lambda>q. prefix q (drop p (i @ 0x0A # lit ''# Know-How'' @ r)))
                [LF @ lit ''# Know-How'']"
        by simp
    qed
  next
    show "0x0A # lit ''# Know-How'' @ r = [] \<or>
          list_ex (\<lambda>q. prefix q (0x0A # lit ''# Know-How'' @ r)) [LF @ lit ''# Know-How'']"
      by simp
  qed
  then show ?thesis by simp
qed

text \<open>No Instructions heading line before the one that follows the Summary body.\<close>

lemma no_instructions_line_before:
  assumes s3: "\<not> sublist (lit ''# Instructions'' @ LF) (s @ LF)"
  shows "\<not> sublist (lit ''# Instructions'' @ LF) ((lit ''# Summary'' @ LF @ s) @ LF)"
proof
  assume "sublist (lit ''# Instructions'' @ LF) ((lit ''# Summary'' @ LF @ s) @ LF)"
  then have a: "sublist (lit ''# Instructions'' @ [0x0A]) (lit ''# Summary'' @ 0x0A # (s @ LF))"
    by simp
  from sublist_line_end_across [OF lf_not_in_headings(1) a] heading_lines_apart(1) s3
  show False by simp
qed

text \<open>No Know-How heading line before the one that follows the Instructions body.\<close>

lemma no_know_how_line_before:
  assumes s4: "\<not> sublist (lit ''# Know-How'' @ LF) (s @ LF)"
    and i2: "\<not> sublist (lit ''# Know-How'' @ LF) (i @ LF)"
  shows "\<not> sublist (lit ''# Know-How'' @ LF)
           ((lit ''# Summary'' @ LF @ s @ LF @ lit ''# Instructions'' @ LF @ i) @ LF)"
proof
  assume "sublist (lit ''# Know-How'' @ LF)
           ((lit ''# Summary'' @ LF @ s @ LF @ lit ''# Instructions'' @ LF @ i) @ LF)"
  then have a: "sublist (lit ''# Know-How'' @ [0x0A])
                  (lit ''# Summary'' @ 0x0A # (s @ LF @ lit ''# Instructions'' @ LF @ i @ LF))"
    by simp
  from sublist_line_end_across [OF lf_not_in_headings(2) a] heading_lines_apart(2)
  have "sublist (lit ''# Know-How'' @ [0x0A])
          (s @ 0x0A # (lit ''# Instructions'' @ LF @ i @ LF))" by simp
  from sublist_line_end_across [OF lf_not_in_headings(2) this] s4
  have "sublist (lit ''# Know-How'' @ [0x0A]) (lit ''# Instructions'' @ 0x0A # (i @ LF))"
    by simp
  from sublist_line_end_across [OF lf_not_in_headings(2) this] heading_lines_apart(3) i2
  show False by simp
qed

text \<open>
  Claim C8, as amended. Let a document be rendered from three section bodies under the
  headings \<open># Summary\<close>, \<open># Instructions\<close> and \<open># Know-How\<close>. Let the Summary body hold
  neither the text \<open># Instructions\<close> nor the text \<open># Know-How\<close> directly after a line feed,
  directly before a line feed, or at its very end, and let the Instructions body not hold
  the text \<open># Know-How\<close> in one of these places. Then \<open>parseGeneratorResponse\<close> gives back
  the three bodies, trimmed, and the trimmed document as \<open>rawMarkdown\<close>.

  A heading text directly after a line feed starts a line of the body after its first. A
  heading text at the very end of a body stands directly before the line feed that ends
  the body in the document.
\<close>

theorem parseGeneratorResponse_roundtrip:
  assumes s1: "\<not> sublist (LF @ lit ''# Instructions'') s"
    and s2: "\<not> sublist (LF @ lit ''# Know-How'') s"
    and s3: "\<not> sublist (lit ''# Instructions'' @ LF) (s @ LF)"
    and s4: "\<not> sublist (lit ''# Know-How'' @ LF) (s @ LF)"
    and i1: "\<not> sublist (LF @ lit ''# Know-How'') i"
    and i2: "\<not> sublist (lit ''# Know-How'' @ LF) (i @ LF)"
  shows "parseGeneratorResponse (render_sections s i k) =
           \<lparr>gr_summary = trim s, gr_instructions = trim i, gr_knowHow = trim k,
            gr_rawMarkdown = trim (render_sections s i k)\<rparr>"
proof -
  let ?X = "lit ''# Summary'' @ LF @ s @ LF @ lit ''# Instructions'' @ LF @ i"
  define T where "T = trim_end (LF @ k)"
  define raw where "raw = ?X @ LF @ lit ''# Know-How'' @ T"
  have render: "render_sections s i k = (?X @ LF @ lit ''# Know-How'') @ (LF @ k)"
    by (simp add: render_sections_def)
  have raw: "trim (render_sections s i k) = raw"
    unfolding render raw_def T_def
    by (subst trim_core) (use heading_ends in simp_all)
  have sum: "map_option (lazy_until [LF @ lit ''# Instructions'', LF @ lit ''# Know-How''])
               (after_first (lit ''# Summary'' @ LF) raw) = Some s"
  proof -
    let ?r = "LF @ i @ LF @ lit ''# Know-How'' @ T"
    have "after_first (lit ''# Summary'' @ LF)
            ([] @ (lit ''# Summary'' @ LF) @ (s @ LF @ lit ''# Instructions'' @ ?r)) =
          Some (s @ LF @ lit ''# Instructions'' @ ?r)"
      by (rule after_first_at) simp
    moreover have "[] @ (lit ''# Summary'' @ LF) @ (s @ LF @ lit ''# Instructions'' @ ?r) = raw"
      by (simp add: raw_def)
    ultimately have "after_first (lit ''# Summary'' @ LF) raw =
                       Some (s @ LF @ lit ''# Instructions'' @ ?r)"
      by (simp only:)
    then show ?thesis
      by (simp only: option.map summary_group [OF s1 s2])
  qed
  have ins: "map_option (lazy_until [LF @ lit ''# Know-How''])
               (after_first (lit ''# Instructions'' @ LF) raw) = Some i"
  proof -
    let ?r = "i @ LF @ lit ''# Know-How'' @ T"
    have "after_first (lit ''# Instructions'' @ LF)
            ((lit ''# Summary'' @ LF @ s) @ LF @ lit ''# Instructions'' @ LF @ ?r) = Some ?r"
      by (rule heading_line_found [OF lf_not_in_headings(1) no_instructions_line_before [OF s3]])
    moreover have "(lit ''# Summary'' @ LF @ s) @ LF @ lit ''# Instructions'' @ LF @ ?r = raw"
      by (simp add: raw_def)
    ultimately have "after_first (lit ''# Instructions'' @ LF) raw = Some ?r"
      by (simp only:)
    then show ?thesis
      by (simp only: option.map instructions_group [OF i1])
  qed
  have kh: "(case after_first (lit ''# Know-How'' @ LF) raw of
               Some m \<Rightarrow> trim m | None \<Rightarrow> []) = trim k"
  proof (cases "\<forall>c \<in> set k. is_space c")
    case True
    then have "\<forall>c \<in> set (LF @ k). is_space c" by (simp add: lf_space)
    then have "T = []" unfolding T_def by (rule trim_end_all_space)
    then have r: "raw = ?X @ LF @ lit ''# Know-How''" by (simp add: raw_def)
    have "after_first (lit ''# Know-How'' @ LF) (?X @ LF @ lit ''# Know-How'') = None"
      by (rule heading_line_missing
            [OF lf_not_in_headings(2) no_know_how_line_before [OF s4 i2]])
    moreover from True have "dropWhile is_space k = []" by (simp add: dropWhile_eq_Nil_conv)
    then have "trim k = trim_end []" by (simp only: trim_alt)
    then have "trim k = []" by (simp add: trim_end_def)
    ultimately show ?thesis unfolding r by simp
  next
    case False
    then have "\<exists>c \<in> set k. \<not> is_space c" by simp
    then have "T = LF @ trim_end k" unfolding T_def by (rule trim_end_append)
    then have r: "raw = ?X @ LF @ lit ''# Know-How'' @ LF @ trim_end k" by (simp add: raw_def)
    have "after_first (lit ''# Know-How'' @ LF)
            (?X @ LF @ lit ''# Know-How'' @ LF @ trim_end k) = Some (trim_end k)"
      by (rule heading_line_found
            [OF lf_not_in_headings(2) no_know_how_line_before [OF s4 i2]])
    then show ?thesis unfolding r by (simp only: option.case trim_trim_end)
  qed
  show ?thesis
    unfolding parseGeneratorResponse_def Let_def raw sum ins kh
    by (simp only: option.case)
qed

theorem parseGeneratorResponse_roundtrip_witness:
  "parseGeneratorResponse (render_sections ex_summary ex_instructions ex_know_how) =
     \<lparr>gr_summary = lit ''Book a flight.'', gr_instructions = lit ''1. Open the site.'',
      gr_knowHow = lit ''Check the date.'',
      gr_rawMarkdown =
        lit ''# Summary'' @ LF @ LF @ lit ''Book a flight.'' @ LF @ LF @
        lit ''# Instructions'' @ LF @ LF @ lit ''1. Open the site.'' @ LF @ LF @
        lit ''# Know-How'' @ LF @ LF @ lit ''Check the date.''\<rparr>"
proof -
  have h: "\<not> sublist (LF @ lit ''# Instructions'') ex_summary"
    "\<not> sublist (LF @ lit ''# Know-How'') ex_summary"
    "\<not> sublist (lit ''# Instructions'' @ LF) (ex_summary @ LF)"
    "\<not> sublist (lit ''# Know-How'' @ LF) (ex_summary @ LF)"
    "\<not> sublist (LF @ lit ''# Know-How'') ex_instructions"
    "\<not> sublist (lit ''# Know-How'' @ LF) (ex_instructions @ LF)"
    by (simp_all add: ex_summary_def ex_instructions_def lit_def sublist_Cons_right)
  have t: "trim ex_summary = lit ''Book a flight.''"
    "trim ex_instructions = lit ''1. Open the site.''"
    "trim ex_know_how = lit ''Check the date.''"
    "trim (render_sections ex_summary ex_instructions ex_know_how) =
        lit ''# Summary'' @ LF @ LF @ lit ''Book a flight.'' @ LF @ LF @
        lit ''# Instructions'' @ LF @ LF @ lit ''1. Open the site.'' @ LF @ LF @
        lit ''# Know-How'' @ LF @ LF @ lit ''Check the date.''"
    by (simp_all add: trim_def is_space_def render_sections_def lit_def
          ex_summary_def ex_instructions_def ex_know_how_def)
  show ?thesis
    unfolding parseGeneratorResponse_roundtrip [OF h] t ..
qed

text \<open>
  Claim C8 as stated fails. In each of the three documents below no line of a body starts
  with a heading. In the first the Summary body ends with the text \<open># Know-How\<close>, in the
  second it ends with the text \<open># Instructions\<close>, and in the third the Instructions body
  ends with the text \<open># Know-How\<close>. The expressions for the headings are not anchored to
  the start of a line: they match there, and the section returned holds more than the
  body, \<open>c\<close> or \<open>b\<close>, that was rendered.
\<close>

theorem parseGeneratorResponse_roundtrip_counterexample:
  "gr_knowHow (parseGeneratorResponse
     (render_sections (lit ''x # Know-How'') (lit ''b'') (lit ''c''))) =
     lit ''# Instructions'' @ LF @ lit ''b'' @ LF @ lit ''# Know-How'' @ LF @ lit ''c'' \<and>
   gr_instructions (parseGeneratorResponse
     (render_sections (lit ''see # Instructions'') (lit ''b'') (lit ''c''))) =
     lit ''# Instructions'' @ LF @ lit ''b'' \<and>
   gr_knowHow (parseGeneratorResponse
     (render_sections (lit ''a'') (lit ''use # Know-How'') (lit ''c''))) =
     lit ''# Know-How'' @ LF @ lit ''c''"
  by code_simp

text \<open>
  A heading text inside a line, neither at its start nor at its end, is not taken for a
  heading: the bodies below are given back.
\<close>

lemma parseGeneratorResponse_inline_example:
  "parseGeneratorResponse
     (render_sections (lit ''see # Know-How below'') (lit ''use # Know-How here'') (lit ''c'')) =
     \<lparr>gr_summary = lit ''see # Know-How below'', gr_instructions = lit ''use # Know-How here'',
      gr_knowHow = lit ''c'',
      gr_rawMarkdown =
        render_sections (lit ''see # Know-How below'') (lit ''use # Know-How here'') (lit ''c'')\<rparr>"
  by code_simp

text \<open>White space beyond ASCII is trimmed as well.\<close>

lemma trim_unicode_example:
  "trim ([0x00A0, 0xFEFF] @ lit ''a b'' @ [0x2028, 0x3000]) = lit ''a b''"
  by code_simp

section \<open>Properties of the generation client\<close>

lemma complete_loop_all_fail:
  assumes "\<forall>m \<in> set ms. attempt m = Inl (err m)"
  shows "complete_loop attempt ms errors tried =
           (tried @ ms, Inl (errors @ map (\<lambda>m. (m, err m)) ms))"
  using assms
proof (induction ms arbitrary: errors tried)
  case Nil
  show ?case by simp
next
  case (Cons m ms)
  then have "attempt m = Inl (err m)" and "\<forall>m \<in> set ms. attempt m = Inl (err m)" by simp_all
  with Cons.IH [of "errors @ [(m, err m)]" "tried @ [m]"] show ?case by simp
qed

lemma complete_loop_first_success:
  assumes "\<forall>m \<in> set pre. \<exists>e. attempt m = Inl e" and "attempt m = Inr r"
  shows "complete_loop attempt (pre @ m # post) errors tried = (tried @ pre @ [m], Inr r)"
  using assms(1)
proof (induction pre arbitrary: errors tried)
  case Nil
  with assms(2) show ?case by simp
next
  case (Cons p pre)
  then obtain e where "attempt p = Inl e" and "\<forall>m \<in> set pre. \<exists>e. attempt m = Inl e"
    by auto
  with Cons.IH [of "errors @ [(p, e)]" "tried @ [p]"] show ?case by simp
qed

text \<open>
  Claim C3. For every list of models and every prompt: if the call fails on every model of
  the list, \<open>complete\<close> has tried every model, in order, and throws one error, whose message
  is the header line followed by one line per model, in order, with the model and the
  message of its failure; and if the call succeeds on a model after failing on all models
  before it, \<open>complete\<close> returns that result and has tried no model after it.
\<close>

theorem complete_fallback:
  "((\<forall>m \<in> set (models config).
        call (provider config) prompt (call_options config options) m = Inl (err m)) \<longrightarrow>
      complete config call prompt options =
        (models config,
         Inl (''All '' @ provider_name (provider config) @ '' models failed:'' @ NL @ ''  '' @
              join (NL @ ''  '') (map (\<lambda>m. m @ '': '' @ err m) (models config))))) \<and>
   (models config = pre @ m # post \<and>
      (\<forall>m' \<in> set pre.
        \<exists>e. call (provider config) prompt (call_options config options) m' = Inl e) \<and>
      call (provider config) prompt (call_options config options) m = Inr r \<longrightarrow>
      complete config call prompt options = (pre @ [m], Inr r))"
proof (intro conjI impI)
  assume "\<forall>m \<in> set (models config).
        call (provider config) prompt (call_options config options) m = Inl (err m)"
  from complete_loop_all_fail [OF this, of "[]" "[]"]
  show "complete config call prompt options =
        (models config,
         Inl (''All '' @ provider_name (provider config) @ '' models failed:'' @ NL @ ''  '' @
              join (NL @ ''  '') (map (\<lambda>m. m @ '': '' @ err m) (models config))))"
    by (simp add: complete_def all_failed_message_def comp_def)
next
  assume a: "models config = pre @ m # post \<and>
      (\<forall>m' \<in> set pre.
        \<exists>e. call (provider config) prompt (call_options config options) m' = Inl e) \<and>
      call (provider config) prompt (call_options config options) m = Inr r"
  then have "complete_loop (call (provider config) prompt (call_options config options))
               (pre @ m # post) [] [] = ([] @ pre @ [m], Inr r)"
    by (intro complete_loop_first_success) simp_all
  with a show "complete config call prompt options = (pre @ [m], Inr r)"
    by (simp add: complete_def)
qed

theorem complete_fallback_witness:
  "complete ex_config ex_call_down ''hello'' ex_options =
     ([''gpt-4o'', ''gpt-4o-mini'', ''gpt-4-turbo''],
      Inl (''All openai models failed:'' @ NL @
           ''  gpt-4o: no gpt-4o'' @ NL @
           ''  gpt-4o-mini: no gpt-4o-mini'' @ NL @
           ''  gpt-4-turbo: no gpt-4-turbo'')) \<and>
   complete ex_config ex_call_second ''hello'' ex_options =
     ([''gpt-4o'', ''gpt-4o-mini''], Inr (lit ''OK''))"
  using complete_fallback [of ex_config ex_call_down "''hello''" ex_options
          "\<lambda>m. ''no '' @ m" "[]" "''gpt-4o''" "[]" "lit ''x''"]
        complete_fallback [of ex_config ex_call_second "''hello''" ex_options
          "\<lambda>m. ''rate limit''" "[''gpt-4o'']" "''gpt-4o-mini''" "[''gpt-4-turbo'']" "lit ''OK''"]
  by (simp add: ex_config_def ex_call_down_def ex_call_second_def)

section \<open>Properties of the pipeline orchestrator\<close>

text \<open>
  Claim C4. On the empty list \<open>calculateMetrics\<close> returns the metrics with every count 0 and
  every list empty. On a task without actions \<open>generateDocumentation\<close> returns the fixed
  empty result, whose chunks are empty and whose metrics are those metrics, and issues no
  call of \<open>complete\<close>.
\<close>

theorem empty_task_short_circuit:
  "calculateMetrics hostname [] =
     \<lparr>totalActions = 0, totalDurationMs = 0, longPauses = [], backForthPatterns = [],
      repeatedActions = [], extractionActions = [], urlChanges = 0, uniqueDomains = []\<rparr> \<and>
   generateDocumentation env \<lparr>task_id = tid, task_actions = []\<rparr> = (Inr createEmptyResult, []) \<and>
   res_chunks createEmptyResult = [] \<and>
   res_metrics createEmptyResult = calculateMetrics hostname []"
  by (simp add: calculateMetrics_def generateDocumentation_def createEmptyResult_def)

subsection \<open>The chunks block\<close>








subsection \<open>What the conversions throw\<close>









subsection \<open>The stages after the segmenter\<close>

lemma generateDocumentation_stages:
  assumes "task_actions task \<noteq> []"
  shows "generateDocumentation env task =
           (case await_complete env (chunker_request env task) of
              Inl err \<Rightarrow> (Inl (Error err), [chunker_request env task])
            | Inr response \<Rightarrow>
                (case chunks_stage env task
                        (calculateMetrics (hostname_of env) (task_actions task))
                        (formatActionsForLLM env (task_actions task))
                        (formatMetricsForLLM env
                           (calculateMetrics (hostname_of env) (task_actions task)))
                        (cr_chunks (parseChunkerResponse (parse_json env) response)) of
                   (res, calls) \<Rightarrow> (res, chunker_request env task # calls)))"
  using assms
  by (simp add: generateDocumentation_def chunker_request_def Let_def
        split: prod.splits sum.splits)







subsection \<open>Replies of another shape\<close>

text \<open>
  A chunks block that holds valid JSON is not covered by the claim. When the value is no
  array, \<open>chunkerParsed.chunks.map\<close> throws a \<open>TypeError\<close>, after the one call of the
  segmenter stage.
\<close>

lemma chunks_object_example:
  "cr_chunks (parseChunkerResponse ex_parse_json (lit ''<chunks>{}</chunks>'')) = JObject [] \<and>
   generateDocumentation (ex_env ex_call_object) ex_task =
     (Inl TypeError, [chunker_request (ex_env ex_call_object) ex_task])"
proof -
  have p: "parseChunkerResponse ex_parse_json (lit ''<chunks>{}</chunks>'') =
             \<lparr>cr_analysis = [], cr_chunks = JObject []\<rparr>"
    by code_simp
  have "task_actions ex_task \<noteq> []" by (simp add: ex_task_def ex_session_def)
  from generateDocumentation_stages [OF this, of "ex_env ex_call_object"]
  have "generateDocumentation (ex_env ex_call_object) ex_task =
     (Inl TypeError, [chunker_request (ex_env ex_call_object) ex_task])"
    by (simp add: await_complete_def complete_def ex_env_def ex_config_def ex_call_object_def
          call_options_def chunker_request_def chunks_stage_def array_map_def p Let_def)
  with p show ?thesis by simp
qed

text \<open>
  With no chunks block in the segmenter's reply, the run goes on to the extractor stage.
  When the know-how block of its reply holds the empty object,
  \<open>knowHow.decision_criteria.map\<close> throws a \<open>TypeError\<close>, after two calls.
\<close>

lemma know_how_object_example:
  "generateDocumentation (ex_env ex_call_shapeless) ex_task =
     (Inl TypeError,
      [chunker_request (ex_env ex_call_shapeless) ex_task,
       analyzer_request (ex_env ex_call_shapeless) ex_task])"
proof -
  have c: "parseChunkerResponse ex_parse_json (lit ''Sorry, no segments.'') =
             \<lparr>cr_analysis = [], cr_chunks = JArray []\<rparr>"
    by code_simp
  have k: "parseAnalyzerResponse ex_parse_json
             (lit ''<know_how_extraction>{}</know_how_extraction>'') =
             \<lparr>ar_analysis = [], ar_knowHow = JObject []\<rparr>"
    by code_simp
  have t: "convert_knowHow (JObject []) = Inl TypeError"
    by code_simp
  have "task_actions ex_task \<noteq> []" by (simp add: ex_task_def ex_session_def)
  from generateDocumentation_stages [OF this, of "ex_env ex_call_shapeless"]
  show ?thesis
    by (simp add: await_complete_def complete_def ex_env_def ex_config_def
          ex_call_shapeless_def call_options_def chunker_request_def analyzer_request_def
          chunks_stage_def array_map_def analyzer_stage_def c k t Let_def)
qed

end
